theory Spec2Isabelle
  imports Main "HOL-Library.AList" "HOL-Library.Sublist"
begin

section \<open>Strings\<close>

text \<open>
  Python strings are modelled as \<^typ>\<open>string\<close>, one \<^typ>\<open>char\<close> per code point, which
  covers the code points below 256. \<open>is_space\<close> is \<^verbatim>\<open>str.isspace\<close> on that range: the
  characters that \<^verbatim>\<open>str.strip()\<close> removes and \<^verbatim>\<open>str.split()\<close> would split on.
\<close>

definition is_space :: "char \<Rightarrow> bool" where
  "is_space c \<longleftrightarrow> of_char c \<in> {9, 10, 11, 12, 13, 28, 29, 30, 31, 32, 133, 160 :: nat}"

definition py_strip :: "string \<Rightarrow> string" where
  "py_strip s = rev (dropWhile is_space (rev (dropWhile is_space s)))"

text \<open>\<^verbatim>\<open>s.split(c)\<close> for a one-character separator: never empty, one more piece than separators.\<close>

fun split_on :: "char \<Rightarrow> string \<Rightarrow> string list" where
  "split_on c [] = [[]]"
| "split_on c (x # xs) =
     (if x = c then [] # split_on c xs
      else (case split_on c xs of [] \<Rightarrow> [[x]] | w # ws \<Rightarrow> (x # w) # ws))"

section \<open>add_image_urls.py\<close>

definition generate_image_url :: "string \<Rightarrow> string" where
  "generate_image_url image_id =
     ''https://imagescdn.tasva.com/img/app/product/1/'' @ image_id @ ''.jpg?w=1000&auto=format''"

definition parse_images :: "string \<Rightarrow> string list" where
  "parse_images images_str =
     (if images_str = [] \<or> py_strip images_str = [] then []
      else map py_strip (filter (\<lambda>img. py_strip img \<noteq> []) (split_on CHR '','' images_str)))"


section \<open>JSON values as Python objects\<close>

text \<open>
  A decoded JSON payload, as \<^verbatim>\<open>response.json()\<close> returns it: \<^verbatim>\<open>None\<close>, a \<^verbatim>\<open>bool\<close>, an
  \<^verbatim>\<open>int\<close>, a \<^verbatim>\<open>str\<close>, a \<^verbatim>\<open>list\<close> or a \<^verbatim>\<open>dict\<close> with string keys. A \<^verbatim>\<open>dict\<close> is
  an association list in insertion order; \<^verbatim>\<open>d[k] = v\<close> is \<^const>\<open>AList.update\<close> (replace
  in place, or append). Numbers are Python's unbounded integers; floating-point numbers are
  outside the model.
\<close>

datatype json =
    JNull
  | JBool bool
  | JInt int
  | JStr string
  | JArr "json list"
  | JObj "(string \<times> json) list"

type_synonym dict = "(string \<times> json) list"

datatype error = AttributeError | TypeError | ZeroDivisionError

text \<open>Truth value testing (\<^verbatim>\<open>if x:\<close>).\<close>

fun truthy :: "json \<Rightarrow> bool" where
  "truthy JNull = False"
| "truthy (JBool b) = b"
| "truthy (JInt i) = (i \<noteq> 0)"
| "truthy (JStr s) = (s \<noteq> [])"
| "truthy (JArr xs) = (xs \<noteq> [])"
| "truthy (JObj kvs) = (kvs \<noteq> [])"

fun is_dict :: "json \<Rightarrow> bool" where
  "is_dict (JObj kvs) = True"
| "is_dict v = False"

fun is_list :: "json \<Rightarrow> bool" where
  "is_list (JArr xs) = True"
| "is_list v = False"

text \<open>\<^verbatim>\<open>k in d\<close> and \<^verbatim>\<open>d.get(k, default)\<close>.\<close>

definition has_key :: "dict \<Rightarrow> string \<Rightarrow> bool" where
  "has_key d k \<longleftrightarrow> map_of d k \<noteq> None"

definition dict_get :: "dict \<Rightarrow> string \<Rightarrow> json \<Rightarrow> json" where
  "dict_get d k dflt = (case map_of d k of None \<Rightarrow> dflt | Some v \<Rightarrow> v)"

text \<open>
  Equality and hashing of the values a \<^verbatim>\<open>set\<close> can hold: lists and dicts are unhashable,
  and \<^verbatim>\<open>True == 1\<close>, \<^verbatim>\<open>False == 0\<close> with equal hashes.
\<close>

fun hashable :: "json \<Rightarrow> bool" where
  "hashable (JArr xs) = False"
| "hashable (JObj kvs) = False"
| "hashable v = True"

fun hash_key :: "json \<Rightarrow> json" where
  "hash_key (JBool b) = JInt (if b then 1 else 0)"
| "hash_key v = v"

definition py_eq :: "json \<Rightarrow> json \<Rightarrow> bool" where
  "py_eq a b \<longleftrightarrow> hash_key a = hash_key b"

subsection \<open>\<^verbatim>\<open>str()\<close>, \<^verbatim>\<open>repr()\<close> and \<^verbatim>\<open>str.join\<close>\<close>

definition digit_char :: "nat \<Rightarrow> char" where
  "digit_char d = char_of (48 + d)"

fun dec_nat :: "nat \<Rightarrow> string" where
  "dec_nat n = (if n < 10 then [digit_char n] else dec_nat (n div 10) @ [digit_char (n mod 10)])"

declare dec_nat.simps [simp del]

definition py_str_int :: "int \<Rightarrow> string" where
  "py_str_int i = (if i < 0 then CHR ''-'' # dec_nat (nat (- i)) else dec_nat (nat i))"

definition hex_char :: "nat \<Rightarrow> char" where
  "hex_char d = (if d < 10 then char_of (48 + d) else char_of (87 + d))"

fun join :: "string \<Rightarrow> string list \<Rightarrow> string" where
  "join sep [] = []"
| "join sep [x] = x"
| "join sep (x # y # ys) = x @ sep @ join sep (y # ys)"

text \<open>\<^verbatim>\<open>sep.join(xs)\<close> raises \<^verbatim>\<open>TypeError\<close> unless every item is a \<^verbatim>\<open>str\<close>.\<close>

fun str_items :: "json list \<Rightarrow> error + string list" where
  "str_items [] = Inr []"
| "str_items (JStr s # xs) = (case str_items xs of Inl e \<Rightarrow> Inl e | Inr ss \<Rightarrow> Inr (s # ss))"
| "str_items (v # xs) = Inl TypeError"

definition py_join :: "string \<Rightarrow> json list \<Rightarrow> error + string" where
  "py_join sep xs = (case str_items xs of Inl e \<Rightarrow> Inl e | Inr ss \<Rightarrow> Inr (join sep ss))"

text \<open>
  \<^verbatim>\<open>repr\<close> of a string: single quotes unless the string holds a single quote and no
  double quote; backslash, the quote, tab, newline and carriage return are escaped with a
  backslash, every other non-printable code point below 256 as \<^verbatim>\<open>\xhh\<close>.
\<close>

definition repr_char :: "char \<Rightarrow> char \<Rightarrow> string" where
  "repr_char quote c =
     (let n = of_char c :: nat in
      if c = quote \<or> c = CHR 0x5C then [CHR 0x5C, c]
      else if n = 9 then [CHR 0x5C, CHR ''t'']
      else if n = 10 then [CHR 0x5C, CHR ''n'']
      else if n = 13 then [CHR 0x5C, CHR ''r'']
      else if n < 32 \<or> (127 \<le> n \<and> n \<le> 160) \<or> n = 173
        then [CHR 0x5C, CHR ''x'', hex_char (n div 16), hex_char (n mod 16)]
      else [c])"

definition py_repr_str :: "string \<Rightarrow> string" where
  "py_repr_str s =
     (let quote = (if CHR 0x27 \<in> set s \<and> CHR 0x22 \<notin> set s then CHR 0x22 else CHR 0x27)
      in quote # concat (map (repr_char quote) s) @ [quote])"

fun py_repr :: "json \<Rightarrow> string" where
  "py_repr JNull = ''None''"
| "py_repr (JBool b) = (if b then ''True'' else ''False'')"
| "py_repr (JInt i) = py_str_int i"
| "py_repr (JStr s) = py_repr_str s"
| "py_repr (JArr xs) = ''['' @ join '', '' (map py_repr xs) @ '']''"
| "py_repr (JObj kvs) =
     ''{'' @ join '', '' (map (\<lambda>(k, v). py_repr_str k @ '': '' @ py_repr v) kvs) @ ''}''"

fun py_str :: "json \<Rightarrow> string" where
  "py_str (JStr s) = s"
| "py_str v = py_repr v"

text \<open>\<^verbatim>\<open>str.lower()\<close> on the code points below 256.\<close>

definition lower_char :: "char \<Rightarrow> char" where
  "lower_char c =
     (let n = of_char c :: nat in
      if (65 \<le> n \<and> n \<le> 90) \<or> (192 \<le> n \<and> n \<le> 222 \<and> n \<noteq> 215) then char_of (n + 32) else c)"

definition py_lower :: "string \<Rightarrow> string" where
  "py_lower s = map lower_char s"

subsection \<open>\<^verbatim>\<open>json.dumps\<close>\<close>

text \<open>
  \<^verbatim>\<open>json.dumps(v, ensure_ascii=...)\<close> with the default separators \<^verbatim>\<open>", "\<close> and \<^verbatim>\<open>": "\<close>.
  A string is quoted; backslash, double quote and the control characters are escaped, and
  with \<^verbatim>\<open>ensure_ascii\<close> every code point above \<^verbatim>\<open>~\<close> as well.
\<close>

definition json_escape_char :: "bool \<Rightarrow> char \<Rightarrow> string" where
  "json_escape_char ensure_ascii c =
     (let n = of_char c :: nat in
      if c = CHR 0x5C \<or> c = CHR 0x22 then [CHR 0x5C, c]
      else if n = 8 then [CHR 0x5C, CHR ''b'']
      else if n = 12 then [CHR 0x5C, CHR ''f'']
      else if n = 10 then [CHR 0x5C, CHR ''n'']
      else if n = 13 then [CHR 0x5C, CHR ''r'']
      else if n = 9 then [CHR 0x5C, CHR ''t'']
      else if n < 32 \<or> (ensure_ascii \<and> 126 < n)
        then [CHR 0x5C, CHR ''u'', CHR ''0'', CHR ''0'', hex_char (n div 16), hex_char (n mod 16)]
      else [c])"

definition json_str :: "bool \<Rightarrow> string \<Rightarrow> string" where
  "json_str ensure_ascii s = CHR 0x22 # concat (map (json_escape_char ensure_ascii) s) @ [CHR 0x22]"

fun dumps :: "bool \<Rightarrow> json \<Rightarrow> string" where
  "dumps ea JNull = ''null''"
| "dumps ea (JBool b) = (if b then ''true'' else ''false'')"
| "dumps ea (JInt i) = py_str_int i"
| "dumps ea (JStr s) = json_str ea s"
| "dumps ea (JArr xs) = ''['' @ join '', '' (map (dumps ea) xs) @ '']''"
| "dumps ea (JObj kvs) =
     ''{'' @ join '', '' (map (\<lambda>(k, v). json_str ea k @ '': '' @ dumps ea v) kvs) @ ''}''"

section \<open>Deduplication\<close>

subsection \<open>snitch_scraper.py: \<^verbatim>\<open>remove_duplicates_by_title\<close>\<close>

text \<open>The key computed at the start of the loop body: the title, lower-cased and stripped.\<close>

definition normalized_title :: "dict \<Rightarrow> string" where
  "normalized_title product =
     (let title = dict_get product ''title'' (JStr '''')
      in if truthy title then py_strip (py_lower (py_str title)) else '''')"

fun remove_duplicates_by_title_loop :: "string set \<Rightarrow> dict list \<Rightarrow> dict list \<Rightarrow> dict list" where
  "remove_duplicates_by_title_loop seen_titles unique_products [] = unique_products"
| "remove_duplicates_by_title_loop seen_titles unique_products (product # rest) =
     (let nt = normalized_title product
      in if nt \<noteq> [] \<and> nt \<in> seen_titles
         then remove_duplicates_by_title_loop seen_titles unique_products rest
         else remove_duplicates_by_title_loop
                (if nt \<noteq> [] then insert nt seen_titles else seen_titles)
                (unique_products @ [product]) rest)"

definition remove_duplicates_by_title :: "dict list \<Rightarrow> dict list" where
  "remove_duplicates_by_title products = remove_duplicates_by_title_loop {} [] products"

subsection \<open>tasva_scraper.py: \<^verbatim>\<open>remove_duplicates_by_id\<close>\<close>

text \<open>
  \<^verbatim>\<open>seen_ids\<close> holds each identifier up to Python equality (\<^const>\<open>hash_key\<close>). Looking
  a truthy list or dict up in the set raises \<^verbatim>\<open>TypeError\<close> (unhashable).
\<close>

definition product_id :: "dict \<Rightarrow> json" where
  "product_id product = dict_get product ''ProductID'' (JStr '''')"

fun remove_duplicates_by_id_loop :: "json set \<Rightarrow> dict list \<Rightarrow> dict list \<Rightarrow> error + dict list" where
  "remove_duplicates_by_id_loop seen_ids unique_products [] = Inr unique_products"
| "remove_duplicates_by_id_loop seen_ids unique_products (product # rest) =
     (let pid = product_id product
      in if truthy pid \<and> \<not> hashable pid then Inl TypeError
         else if truthy pid \<and> hash_key pid \<in> seen_ids
         then remove_duplicates_by_id_loop seen_ids unique_products rest
         else remove_duplicates_by_id_loop
                (if truthy pid then insert (hash_key pid) seen_ids else seen_ids)
                (unique_products @ [product]) rest)"

definition remove_duplicates_by_id :: "dict list \<Rightarrow> error + dict list" where
  "remove_duplicates_by_id products = remove_duplicates_by_id_loop {} [] products"

section \<open>snitch_scraper.py: locating and flattening records\<close>

subsection \<open>\<^verbatim>\<open>_extract_product_info\<close>\<close>

text \<open>The \<^verbatim>\<open>if\<close>/\<^verbatim>\<open>elif\<close> chain on one value of the item.\<close>

fun is_primitive :: "json \<Rightarrow> bool" where
  "is_primitive (JArr xs) = False"
| "is_primitive (JObj kvs) = False"
| "is_primitive v = True"

fun flatten_value :: "json \<Rightarrow> json" where
  "flatten_value JNull = JNull"
| "flatten_value (JBool b) = JBool b"
| "flatten_value (JInt i) = JInt i"
| "flatten_value (JStr s) = JStr s"
| "flatten_value (JObj kvs) = JStr (dumps False (JObj kvs))"
| "flatten_value (JArr xs) =
     (if xs = [] then JStr ''[]''
      else if list_all is_primitive xs
        then JStr (join '', '' (map (\<lambda>v. if v = JNull then '''' else py_str v) xs))
      else JStr (dumps False (JArr xs)))"

text \<open>\<^verbatim>\<open>item.items()\<close> raises \<^verbatim>\<open>AttributeError\<close> when the item is not a dict.\<close>

fun snitch_extract_product_info :: "json \<Rightarrow> error + dict" where
  "snitch_extract_product_info (JObj item) =
     Inr (fold (\<lambda>(key, value) product. AList.update key (flatten_value value) product) item [])"
| "snitch_extract_product_info v = Inl AttributeError"

subsection \<open>\<^verbatim>\<open>_find_products_recursive\<close>\<close>

definition product_indicators :: "string list" where
  "product_indicators =
     [''title'', ''name'', ''price'', ''id'', ''product_id'',
      ''image'', ''url'', ''productUrl'', ''selling_price'']"

definition skip_keys :: "string list" where
  "skip_keys =
     [''children'', ''className'', ''routeParams'', ''__PAGE__'',
      ''needHamBurger'', ''needSearchBar'', ''needDesktopIcons'',
      ''displayAppNudge'', ''key'', ''value'']"

text \<open>
  \<^verbatim>\<open>len(xs) > 0 and isinstance(xs[0], dict) and any(key in xs[0] for key in indicators)\<close>
\<close>

fun looks_like_product_list :: "json list \<Rightarrow> bool" where
  "looks_like_product_list (JObj sample # rest) = list_ex (has_key sample) product_indicators"
| "looks_like_product_list xs = False"

fun find_products_recursive :: "json \<Rightarrow> nat \<Rightarrow> json list"
  and find_products_items :: "(string \<times> json) list \<Rightarrow> nat \<Rightarrow> json list" where
  "find_products_recursive (JArr xs) depth =
     (if depth > 10 then [] else if looks_like_product_list xs then xs else [])"
| "find_products_recursive (JObj kvs) depth =
     (if depth > 10 then [] else find_products_items kvs depth)"
| "find_products_recursive JNull depth = []"
| "find_products_recursive (JBool b) depth = []"
| "find_products_recursive (JInt i) depth = []"
| "find_products_recursive (JStr s) depth = []"
| "find_products_items [] depth = []"
| "find_products_items ((key, value) # rest) depth =
     (if key \<in> set skip_keys then find_products_items rest depth
      else case value of
        JArr xs \<Rightarrow>
          (if looks_like_product_list xs then xs
           else (let result = find_products_recursive value (depth + 1)
                 in if result \<noteq> [] then result else find_products_items rest depth))
      | _ \<Rightarrow>
          (let result = find_products_recursive value (depth + 1)
           in if result \<noteq> [] then result else find_products_items rest depth))"

subsection \<open>\<^verbatim>\<open>_deep_search_for_products\<close> and \<^verbatim>\<open>_looks_like_product\<close>\<close>

definition deep_indicators :: "string list" where
  "deep_indicators =
     [''title'', ''name'', ''price'', ''id'', ''product_id'',
      ''image'', ''url'', ''productUrl'', ''selling_price'',
      ''product_name'', ''productName'']"

text \<open>The list \<^verbatim>\<open>found\<close> is shared by all the calls; here it is passed in and returned.\<close>

fun deep_search_for_products :: "json \<Rightarrow> nat \<Rightarrow> json list \<Rightarrow> json list"
  and deep_search_items :: "(string \<times> json) list \<Rightarrow> nat \<Rightarrow> json list \<Rightarrow> json list"
  and deep_search_list :: "json list \<Rightarrow> nat \<Rightarrow> json list \<Rightarrow> json list" where
  "deep_search_for_products (JObj kvs) depth found =
     (if depth > 15 then found
      else deep_search_items kvs depth
             (if list_ex (has_key kvs) deep_indicators
                 \<and> (\<not> has_key kvs ''children'' \<or> \<not> has_key kvs ''className'')
              then found @ [JObj kvs] else found))"
| "deep_search_for_products (JArr xs) depth found =
     (if depth > 15 then found else deep_search_list xs depth found)"
| "deep_search_for_products JNull depth found = found"
| "deep_search_for_products (JBool b) depth found = found"
| "deep_search_for_products (JInt i) depth found = found"
| "deep_search_for_products (JStr s) depth found = found"
| "deep_search_items [] depth found = found"
| "deep_search_items ((key, value) # rest) depth found =
     (if key \<in> set [''children'', ''className'', ''routeParams'']
      then deep_search_items rest depth found
      else deep_search_items rest depth (deep_search_for_products value (depth + 1) found))"
| "deep_search_list [] depth found = found"
| "deep_search_list (item # rest) depth found =
     deep_search_list rest depth (deep_search_for_products item (depth + 1) found)"

definition looks_like_product :: "dict \<Rightarrow> bool" where
  "looks_like_product product \<longleftrightarrow>
     product \<noteq> []
     \<and> list_ex (has_key product)
          [''title'', ''name'', ''id'', ''product_id'', ''price'', ''selling_price'']
     \<and> \<not> has_key product ''children'' \<and> \<not> has_key product ''className''"

subsection \<open>\<^verbatim>\<open>extract_products\<close>\<close>

text \<open>
  The first \<^verbatim>\<open>if\<close>/\<^verbatim>\<open>elif\<close> chain of \<^verbatim>\<open>extract_products\<close> chooses \<^verbatim>\<open>products_data\<close>
  and prints which branch it took; the printed line is returned as a \<open>found_via\<close>:
  \<^verbatim>\<open>Found 'k' key with list\<close>, \<^verbatim>\<open>Found nested 'data.k'\<close>, or one of the two
  \<^verbatim>\<open>... searching recursively...\<close> lines.
\<close>

datatype found_via = Found_key_with_list string | Found_nested string | Searching_recursively

definition key_is_list :: "dict \<Rightarrow> string \<Rightarrow> bool" where
  "key_is_list d k = (case map_of d k of Some (JArr xs) \<Rightarrow> True | _ \<Rightarrow> False)"

definition locate_products_data :: "dict \<Rightarrow> found_via \<times> json" where
  "locate_products_data data =
     (if key_is_list data ''data'' then (Found_key_with_list ''data'', dict_get data ''data'' JNull)
      else if key_is_list data ''products''
        then (Found_key_with_list ''products'', dict_get data ''products'' JNull)
      else if key_is_list data ''results''
        then (Found_key_with_list ''results'', dict_get data ''results'' JNull)
      else if key_is_list data ''items''
        then (Found_key_with_list ''items'', dict_get data ''items'' JNull)
      else case map_of data ''data'' of
        Some (JObj nested_data) \<Rightarrow>
          (if has_key nested_data ''products''
             then (Found_nested ''data.products'', dict_get nested_data ''products'' JNull)
           else if has_key nested_data ''results''
             then (Found_nested ''data.results'', dict_get nested_data ''results'' JNull)
           else (Searching_recursively, JArr (find_products_recursive (JObj nested_data) 0)))
      | _ \<Rightarrow> (Searching_recursively, JArr (find_products_recursive (JObj data) 0)))"

text \<open>
  \<^verbatim>\<open>for item in items: product = self._extract_product_info(item); if product: append\<close>.
  The first item that is not a dict raises.
\<close>

fun extract_items :: "json list \<Rightarrow> error + dict list" where
  "extract_items [] = Inr []"
| "extract_items (item # rest) =
     (case snitch_extract_product_info item of
        Inl e \<Rightarrow> Inl e
      | Inr product \<Rightarrow>
          (case extract_items rest of
             Inl e \<Rightarrow> Inl e
           | Inr products \<Rightarrow> Inr (if product \<noteq> [] then product # products else products)))"

fun extract_deep :: "json list \<Rightarrow> error + dict list" where
  "extract_deep [] = Inr []"
| "extract_deep (obj # rest) =
     (case snitch_extract_product_info obj of
        Inl e \<Rightarrow> Inl e
      | Inr product \<Rightarrow>
          (case extract_deep rest of
             Inl e \<Rightarrow> Inl e
           | Inr products \<Rightarrow>
               Inr (if product \<noteq> [] \<and> looks_like_product product then product # products
                    else products)))"

definition list_values :: "dict \<Rightarrow> json list" where
  "list_values d = concat (map (\<lambda>(key, value). case value of JArr xs \<Rightarrow> xs | _ \<Rightarrow> []) d)"

definition snitch_extract_products :: "json \<Rightarrow> error + dict list" where
  "snitch_extract_products data =
     (case (case data of
              JObj d \<Rightarrow>
                (case snd (locate_products_data d) of
                   JArr xs \<Rightarrow> extract_items xs
                 | JObj kvs \<Rightarrow> extract_items (list_values kvs)
                 | _ \<Rightarrow> Inr [])
            | _ \<Rightarrow> Inr []) of
        Inl e \<Rightarrow> Inl e
      | Inr products \<Rightarrow>
          if products = [] then extract_deep (deep_search_for_products data 0 []) else Inr products)"

section \<open>snitch_scraper.py: \<^verbatim>\<open>scrape_query\<close>\<close>

text \<open>A number as \<^verbatim>\<open><\<close> and \<^verbatim>\<open>+\<close> accept it: an \<^verbatim>\<open>int\<close> or a \<^verbatim>\<open>bool\<close>.\<close>

fun as_number :: "json \<Rightarrow> int option" where
  "as_number (JInt i) = Some i"
| "as_number (JBool b) = Some (if b then 1 else 0)"
| "as_number v = None"

text \<open>
  The pagination checks of one iteration (after \<^verbatim>\<open>all_products.extend(products)\<close>): from
  the response, \<^verbatim>\<open>len(products)\<close>, \<^verbatim>\<open>len(all_products)\<close>, \<^verbatim>\<open>limit\<close>, \<^verbatim>\<open>page\<close> and the
  \<^verbatim>\<open>total_count\<close> known so far, to \<^verbatim>\<open>has_more\<close> and the new \<^verbatim>\<open>total_count\<close>. Arithmetic
  or comparison with a \<^verbatim>\<open>total_count\<close> or \<^verbatim>\<open>totalPages\<close> that is not a number raises
  \<^verbatim>\<open>TypeError\<close>.
\<close>

definition snitch_data_pagination :: "json \<Rightarrow> nat \<Rightarrow> nat \<Rightarrow> int \<Rightarrow> json \<Rightarrow> error + bool \<times> json" where
  "snitch_data_pagination response_data n_products n_all limit total_count =
     (case response_data of
        JObj resp \<Rightarrow>
          (case map_of resp ''data'' of
             Some (JObj data_obj) \<Rightarrow>
               (let total_count' = (if has_key data_obj ''total_count''
                                    then dict_get data_obj ''total_count'' JNull else total_count)
                in if total_count' \<noteq> JNull then
                     (case as_number total_count' of
                        None \<Rightarrow> Inl TypeError
                      | Some n \<Rightarrow> Inr (int n_all < n, total_count'))
                   else if has_key data_obj ''hasMore''
                     then Inr (truthy (dict_get data_obj ''hasMore'' JNull), total_count')
                   else if has_key data_obj ''nextPage'' \<and> truthy (dict_get data_obj ''nextPage'' JNull)
                     then Inr (True, total_count')
                   else Inr (int n_products = limit, total_count'))
           | _ \<Rightarrow> Inr (False, total_count))
      | _ \<Rightarrow> Inr (False, total_count))"

definition snitch_top_pagination :: "dict \<Rightarrow> nat \<Rightarrow> int \<Rightarrow> int \<Rightarrow> json \<Rightarrow> error + bool" where
  "snitch_top_pagination resp n_products limit page total_count =
     (if has_key resp ''hasMore'' \<and> truthy (dict_get resp ''hasMore'' JNull) then Inr True
      else if has_key resp ''totalPages'' then
        (case as_number (dict_get resp ''totalPages'' JNull) of
           None \<Rightarrow> Inl TypeError
         | Some total_pages \<Rightarrow> Inr (page < total_pages))
      else if has_key resp ''nextPage'' \<and> truthy (dict_get resp ''nextPage'' JNull) then Inr True
      else Inr (int n_products = limit \<and> total_count = JNull))"

definition snitch_pagination :: "json \<Rightarrow> nat \<Rightarrow> nat \<Rightarrow> int \<Rightarrow> int \<Rightarrow> json \<Rightarrow> error + bool \<times> json" where
  "snitch_pagination response_data n_products n_all limit page total_count =
     (case snitch_data_pagination response_data n_products n_all limit total_count of
        Inl e \<Rightarrow> Inl e
      | Inr (has_more, total_count') \<Rightarrow>
          (case response_data of
             JObj resp \<Rightarrow>
               (if \<not> has_more then
                  (case snitch_top_pagination resp n_products limit page total_count' of
                     Inl e \<Rightarrow> Inl e
                   | Inr has_more' \<Rightarrow> Inr (has_more', total_count'))
                else Inr (has_more, total_count'))
           | _ \<Rightarrow> Inr (has_more, total_count')))"

text \<open>
  The \<^verbatim>\<open>while True\<close> loop. \<open>search page limit\<close> is \<^verbatim>\<open>scraper.search(query, page, limit)\<close>,
  which returns the decoded response, or \<^verbatim>\<open>{}\<close> after a failed request. The loop state is
  \<^verbatim>\<open>page\<close>, \<^verbatim>\<open>all_products\<close> and \<^verbatim>\<open>total_count\<close>; \<open>fetches\<close> counts the calls of
  \<open>search\<close>. The result is that count and what \<^verbatim>\<open>scrape_query\<close> returns or raises.
\<close>

function snitch_scrape_loop ::
  "(int \<Rightarrow> int \<Rightarrow> json) \<Rightarrow> int \<Rightarrow> int \<Rightarrow> dict list \<Rightarrow> json \<Rightarrow> nat \<Rightarrow> nat \<times> (error + dict list)" where
  "snitch_scrape_loop search limit page all_products total_count fetches =
     (let response_data = search page limit in
      case snitch_extract_products response_data of
        Inl e \<Rightarrow> (fetches + 1, Inl e)
      | Inr products \<Rightarrow>
          if products = [] then (fetches + 1, Inr all_products)
          else
            (case snitch_pagination response_data (length products)
                    (length (all_products @ products)) limit page total_count of
               Inl e \<Rightarrow> (fetches + 1, Inl e)
             | Inr (has_more, total_count') \<Rightarrow>
                 if \<not> has_more then (fetches + 1, Inr (all_products @ products))
                 else if page + 1 > 1000 then (fetches + 1, Inr (all_products @ products))
                 else snitch_scrape_loop search limit (page + 1) (all_products @ products)
                        total_count' (fetches + 1)))"
  by pat_completeness auto
termination
  by (relation "measure (\<lambda>(search, limit, page, all_products, total_count, fetches). nat (1001 - page))")
     auto

declare snitch_scrape_loop.simps [simp del]

definition snitch_scrape_query :: "(int \<Rightarrow> int \<Rightarrow> json) \<Rightarrow> int \<Rightarrow> nat \<times> (error + dict list)" where
  "snitch_scrape_query search limit = snitch_scrape_loop search limit 1 [] JNull 0"

section \<open>tasva_scraper.py: the record flattener\<close>

text \<open>
  \<^verbatim>\<open>s.replace(old, new)\<close> for a non-empty \<^verbatim>\<open>old\<close>: every occurrence, left to right,
  without overlap. The source calls it with \<^verbatim>\<open>'.jpg'\<close> and \<^verbatim>\<open>'.jpeg'\<close> only.
\<close>

fun str_replace :: "string \<Rightarrow> string \<Rightarrow> string \<Rightarrow> string" where
  "str_replace old new [] = []"
| "str_replace old new (c # cs) =
     (if old \<noteq> [] \<and> prefix old (c # cs)
      then new @ str_replace old new (drop (length old - 1) cs)
      else c # str_replace old new cs)"

definition bind_result :: "error + 'a \<Rightarrow> ('a \<Rightarrow> error + 'b) \<Rightarrow> error + 'b" where
  "bind_result r f = (case r of Inl e \<Rightarrow> Inl e | Inr x \<Rightarrow> f x)"

text \<open>A run of assignments \<^verbatim>\<open>product[k] = v\<close>, in order.\<close>

definition assign :: "(string \<times> json) list \<Rightarrow> dict \<Rightarrow> dict" where
  "assign kvs product = fold (\<lambda>(k, v) p. AList.update k v p) kvs product"

text \<open>\<^verbatim>\<open>json.dumps(v) if v else ''\<close> (default \<^verbatim>\<open>ensure_ascii\<close>).\<close>

definition dumps_if_truthy :: "json \<Rightarrow> json" where
  "dumps_if_truthy v = (if truthy v then JStr (dumps True v) else JStr '''')"

text \<open>The truthy \<^verbatim>\<open>Name\<close> of every dict in a list (the loops over images and sizes).\<close>

fun truthy_names :: "json list \<Rightarrow> json list" where
  "truthy_names [] = []"
| "truthy_names (JObj d # rest) =
     (let name = dict_get d ''Name'' (JStr '''')
      in if truthy name then name # truthy_names rest else truthy_names rest)"
| "truthy_names (v # rest) = truthy_names rest"

definition basic_fields :: "dict \<Rightarrow> dict \<Rightarrow> dict" where
  "basic_fields item product =
     assign
       [(''ProductID'', dict_get item ''ProductID'' (JStr '''')),
        (''StyleCode'', dict_get item ''StyleCode'' (JStr '''')),
        (''Name'', dict_get item ''Name'' (JStr '''')),
        (''ShortDescription'', dict_get item ''ShortDescription'' (JStr '''')),
        (''LinkRewrite'', dict_get item ''LinkRewrite'' (JStr '''')),
        (''Price'', dict_get item ''Price'' (JStr '''')),
        (''SellingPrice'', dict_get item ''SellingPrice'' (JStr '''')),
        (''Color'', dict_get item ''Color'' (JStr '''')),
        (''Quantity'', dict_get item ''Quantity'' (JInt 0)),
        (''Active'', dict_get item ''Active'' (JInt 0)),
        (''IsReturnable'', dict_get item ''IsReturnable'' (JInt 0)),
        (''DefaultCategoryID'', dict_get item ''DefaultCategoryID'' (JStr '''')),
        (''DefaultCategoryName'', dict_get item ''DefaultCategoryName'' (JStr '''')),
        (''DefaultCategoryLinkRewrite'', dict_get item ''DefaultCategoryLinkRewrite'' (JStr '''')),
        (''CategoryGroupID'', dict_get item ''CategoryGroupID'' (JStr '''')),
        (''Gender'', dict_get item ''Gender'' (JStr '''')),
        (''GenderLinkRewrite'', dict_get item ''GenderLinkRewrite'' (JStr '''')),
        (''ShopID'', dict_get item ''ShopID'' (JStr '''')),
        (''ShopIDs'',
           (if key_is_list item ''ShopIDs''
            then JStr (dumps True (dict_get item ''ShopIDs'' (JArr [])))
            else dict_get item ''ShopIDs'' (JStr ''''))),
        (''PublishedDate'', dict_get item ''PublishedDate'' (JStr '''')),
        (''FirstInStock'', dict_get item ''FirstInStock'' (JStr ''''))]
       product"

definition features_fields :: "dict \<Rightarrow> dict \<Rightarrow> dict" where
  "features_fields item product =
     (case dict_get item ''Features'' (JObj []) of
        JObj features \<Rightarrow>
          assign
            [(''Brand'', dict_get features ''Brand'' (JStr '''')),
             (''Fabric'', dict_get features ''Fabric'' (JStr '''')),
             (''Fit'', dict_get features ''Fit'' (JStr '''')),
             (''Color_Feature'', dict_get features ''Color'' (JStr '''')),
             (''Craft'', dict_get features ''Craft'' (JStr '''')),
             (''Collection'', dict_get features ''Collection'' (JStr '''')),
             (''Occasion'', dict_get features ''Occasion'' (JStr '''')),
             (''Length'', dict_get features ''Length'' (JStr '''')),
             (''Neck'', dict_get features ''Neck'' (JStr '''')),
             (''SleeveLength'', dict_get features ''SleeveLength'' (JStr '''')),
             (''Type'', dict_get features ''Type'' (JStr '''')),
             (''Pockets'', dict_get features ''Pockets'' (JStr '''')),
             (''Reversible'', dict_get features ''Reversible'' (JStr '''')),
             (''Closure'', dict_get features ''Closure'' (JStr '''')),
             (''Subbrand'', dict_get features ''Subbrand'' (JStr '''')),
             (''Features_JSON'', JStr (dumps False (JObj features)))]
            product
      | features \<Rightarrow> assign [(''Features_JSON'', dumps_if_truthy features)] product)"

definition discount_fields :: "dict \<Rightarrow> dict \<Rightarrow> dict" where
  "discount_fields item product =
     (case dict_get item ''Discount'' (JObj []) of
        JObj discount \<Rightarrow>
          assign
            [(''Discount_Type'', dict_get discount ''Type'' (JStr '''')),
             (''Discount_Amount'', dict_get discount ''Amount'' (JStr '''')),
             (''Discount_StartDate'', dict_get discount ''StartDate'' (JStr '''')),
             (''Discount_EndDate'', dict_get discount ''EndDate'' (JStr '''')),
             (''Discount_JSON'', JStr (dumps False (JObj discount)))]
            product
      | discount \<Rightarrow> assign [(''Discount_JSON'', dumps_if_truthy discount)] product)"

text \<open>
  The images of \<^verbatim>\<open>Media\<close>. \<^verbatim>\<open>', '.join(image_names)\<close> raises \<^verbatim>\<open>TypeError\<close> when a truthy
  \<^verbatim>\<open>Name\<close> is not a string; otherwise every name is a string and its URL is the format
  string of \<open>generate_image_url\<close>.
\<close>

definition images_fields :: "dict \<Rightarrow> dict \<Rightarrow> error + dict" where
  "images_fields media product =
     (case dict_get media ''Images'' (JArr []) of
        JArr images \<Rightarrow>
          bind_result (str_items (truthy_names images)) (\<lambda>image_names.
            let image_urls = map generate_image_url image_names
            in Inr (assign
                 [(''Images'', JStr (join '', '' image_names)),
                  (''Images_JSON'', JStr (dumps False (JArr images))),
                  (''ImageURLs'', JStr (if image_urls \<noteq> [] then join '', '' image_urls else '''')),
                  (''ImageURLs_JSON'',
                     JStr (if image_urls \<noteq> [] then dumps False (JArr (map JStr image_urls))
                           else ''[]'')),
                  (''PrimaryImageURL'', JStr (case image_urls of [] \<Rightarrow> '''' | u # us \<Rightarrow> u))]
                 product))
      | images \<Rightarrow>
          Inr (assign
            [(''ImageURLs'', JStr ''''), (''ImageURLs_JSON'', JStr ''[]''),
             (''PrimaryImageURL'', JStr '''')]
            product))"

text \<open>\<^verbatim>\<open>swatch.replace\<close> raises \<^verbatim>\<open>AttributeError\<close> when a truthy swatch is not a string.\<close>

definition swatch_fields :: "dict \<Rightarrow> dict \<Rightarrow> error + dict" where
  "swatch_fields media product =
     (let swatch = dict_get media ''Swatch'' (JStr '''');
          product' = assign
            [(''Swatch'', swatch),
             (''SwatchExtension'', dict_get media ''SwatchExtension'' (JStr ''''))] product
      in if truthy swatch then
           (case swatch of
              JStr s \<Rightarrow>
                Inr (assign
                  [(''SwatchImageURL'',
                     JStr (generate_image_url
                       (str_replace ''.jpeg'' '''' (str_replace ''.jpg'' '''' s))))]
                  product')
            | _ \<Rightarrow> Inl AttributeError)
         else Inr (assign [(''SwatchImageURL'', JStr '''')] product'))"

definition media_fields :: "dict \<Rightarrow> dict \<Rightarrow> error + dict" where
  "media_fields item product =
     (case dict_get item ''Media'' (JObj []) of
        JObj media \<Rightarrow> bind_result (images_fields media product) (swatch_fields media)
      | media \<Rightarrow>
          Inr (assign
            [(''Images_JSON'', dumps_if_truthy media),
             (''ImageURLs'', JStr ''''), (''ImageURLs_JSON'', JStr ''[]''),
             (''PrimaryImageURL'', JStr ''''), (''SwatchImageURL'', JStr '''')]
            product))"

definition sizes_fields :: "dict \<Rightarrow> dict \<Rightarrow> error + dict" where
  "sizes_fields item product =
     (case dict_get item ''Sizes'' (JArr []) of
        JArr sizes \<Rightarrow>
          bind_result (str_items (truthy_names sizes)) (\<lambda>size_names.
            Inr (assign
              [(''Sizes'', JStr (join '', '' size_names)),
               (''Sizes_JSON'', JStr (dumps False (JArr sizes)))]
              product))
      | sizes \<Rightarrow> Inr (assign [(''Sizes_JSON'', dumps_if_truthy sizes)] product))"

definition tail_fields :: "dict \<Rightarrow> dict \<Rightarrow> dict" where
  "tail_fields item product =
     (let product' = assign
            [(''ColorAwayProducts_JSON'',
                (case dict_get item ''ColorAwayProducts'' (JArr []) of
                   JArr color_away \<Rightarrow> JStr (dumps False (JArr color_away))
                 | color_away \<Rightarrow> dumps_if_truthy color_away)),
             (''SimilarProducts'', dict_get item ''SimilarProducts'' (JStr '''')),
             (''StoreIds'', dict_get item ''StoreIds'' (JStr '''')),
             (''ProductViews'', dict_get item ''ProductViews'' (JInt 0)),
             (''OrdersCount'', dict_get item ''OrdersCount'' (JInt 0))]
            product
      in assign
           [(''ProductURL'',
               (if truthy (dict_get product' ''LinkRewrite'' JNull)
                then JStr (''https://www.tasva.com/p/''
                       @ py_str (dict_get product' ''LinkRewrite'' JNull) @ ''-''
                       @ py_str (dict_get product' ''ProductID'' (JStr '''')) @ ''.html'')
                else JStr ''''))]
           product')"

text \<open>\<^verbatim>\<open>item.get\<close> raises \<^verbatim>\<open>AttributeError\<close> when the item is not a dict.\<close>

fun tasva_extract_product_info :: "json \<Rightarrow> error + dict" where
  "tasva_extract_product_info (JObj item) =
     bind_result
       (media_fields item (discount_fields item (features_fields item (basic_fields item []))))
       (\<lambda>product. bind_result (sizes_fields item product)
          (\<lambda>product. Inr (tail_fields item product)))"
| "tasva_extract_product_info v = Inl AttributeError"

section \<open>tasva_scraper.py: \<^verbatim>\<open>extract_products\<close>\<close>

text \<open>
  The loop over \<^verbatim>\<open>hits\<close>: the product data is \<^verbatim>\<open>hit['_source']\<close> when the hit has that
  key, else the hit itself; a hit that is not a dict is passed over.
\<close>

fun tasva_extract_hits :: "json list \<Rightarrow> error + dict list" where
  "tasva_extract_hits [] = Inr []"
| "tasva_extract_hits (JObj hit # rest) =
     (case tasva_extract_product_info
             (if has_key hit ''_source'' then dict_get hit ''_source'' JNull else JObj hit) of
        Inl e \<Rightarrow> Inl e
      | Inr product \<Rightarrow>
          (case tasva_extract_hits rest of
             Inl e \<Rightarrow> Inl e
           | Inr products \<Rightarrow> Inr (if product \<noteq> [] then product # products else products)))"
| "tasva_extract_hits (v # rest) = tasva_extract_hits rest"

text \<open>
  \<^verbatim>\<open>results.products\<close> of a response with a truthy \<^verbatim>\<open>success\<close>, when both levels are
  dicts: the object that \<^verbatim>\<open>extract_products\<close> reads \<^verbatim>\<open>hits\<close> from and \<^verbatim>\<open>scrape_query\<close>
  reads \<^verbatim>\<open>total\<close> from.
\<close>

definition products_obj_of :: "json \<Rightarrow> dict option" where
  "products_obj_of data =
     (case data of
        JObj d \<Rightarrow>
          if truthy (dict_get d ''success'' JNull) then
            (case dict_get d ''results'' (JObj []) of
               JObj results \<Rightarrow>
                 (case dict_get results ''products'' (JObj []) of
                    JObj products_obj \<Rightarrow> Some products_obj
                  | _ \<Rightarrow> None)
             | _ \<Rightarrow> None)
          else None
      | _ \<Rightarrow> None)"

definition tasva_extract_products :: "json \<Rightarrow> error + dict list" where
  "tasva_extract_products data =
     (case products_obj_of data of
        Some products_obj \<Rightarrow>
          (case dict_get products_obj ''hits'' (JArr []) of
             JArr hits \<Rightarrow> tasva_extract_hits hits
           | _ \<Rightarrow> Inr [])
      | None \<Rightarrow> Inr [])"

section \<open>tasva_scraper.py: \<^verbatim>\<open>scrape_query\<close>\<close>

text \<open>
  The pagination check of one iteration: from the response, \<^verbatim>\<open>len(products)\<close>,
  \<^verbatim>\<open>len(all_products)\<close>, \<^verbatim>\<open>limit\<close> and the \<^verbatim>\<open>total_count\<close> known so far, to
  \<^verbatim>\<open>has_more\<close> and the new \<^verbatim>\<open>total_count\<close>.
\<close>

definition tasva_pagination :: "json \<Rightarrow> nat \<Rightarrow> nat \<Rightarrow> int \<Rightarrow> json \<Rightarrow> error + bool \<times> json" where
  "tasva_pagination response_data n_products n_all limit total_count =
     (case products_obj_of response_data of
        Some products_obj \<Rightarrow>
          (let total_count' = (if has_key products_obj ''total''
                               then dict_get products_obj ''total'' JNull else total_count)
           in if total_count' \<noteq> JNull then
                (case as_number total_count' of
                   None \<Rightarrow> Inl TypeError
                 | Some n \<Rightarrow> Inr (int n_all < n, total_count'))
              else Inr (int n_products = limit, total_count'))
      | None \<Rightarrow> Inr (False, total_count))"

text \<open>
  The \<^verbatim>\<open>while True\<close> loop. \<open>search offset limit\<close> is
  \<^verbatim>\<open>scraper.search(query, offset=offset, limit=limit)\<close>. The offset grows by \<^verbatim>\<open>limit\<close>, so
  with a limit that is not positive the loop need not end: not returning is \<open>None\<close>.
\<close>

partial_function (option) tasva_scrape_loop ::
  "(int \<Rightarrow> int \<Rightarrow> error + json) \<Rightarrow> int \<Rightarrow> int \<Rightarrow> dict list \<Rightarrow> json \<Rightarrow> nat
     \<Rightarrow> (nat \<times> (error + dict list)) option" where
  "tasva_scrape_loop search limit offset all_products total_count fetches =
     (case search offset limit of
        Inl e \<Rightarrow> Some (fetches + 1, Inl e)
      | Inr response_data \<Rightarrow>
          (case tasva_extract_products response_data of
             Inl e \<Rightarrow> Some (fetches + 1, Inl e)
           | Inr products \<Rightarrow>
               if products = [] then Some (fetches + 1, Inr all_products)
               else
                 (case tasva_pagination response_data (length products)
                         (length (all_products @ products)) limit total_count of
                    Inl e \<Rightarrow> Some (fetches + 1, Inl e)
                  | Inr (has_more, total_count') \<Rightarrow>
                      if \<not> has_more then Some (fetches + 1, Inr (all_products @ products))
                      else if offset + limit > 100000
                        then Some (fetches + 1, Inr (all_products @ products))
                      else tasva_scrape_loop search limit (offset + limit)
                             (all_products @ products) total_count' (fetches + 1))))"

declare tasva_scrape_loop.simps [code]

definition tasva_scrape_query ::
  "(int \<Rightarrow> int \<Rightarrow> error + json) \<Rightarrow> int \<Rightarrow> (nat \<times> (error + dict list)) option" where
  "tasva_scrape_query search limit = tasva_scrape_loop search limit 0 [] JNull 0"

section \<open>tasva_scraper.py: \<^verbatim>\<open>search\<close>\<close>

text \<open>
  The HTTP client is a collaborator: \<open>post payload\<close> is \<open>None\<close> when
  \<^verbatim>\<open>session.post\<close> raises a \<^verbatim>\<open>RequestException\<close> (timeout, connection failure), else the
  response with its status code and its body decoded as JSON (\<open>None\<close> when
  \<^verbatim>\<open>response.json()\<close> raises). The digest \<^verbatim>\<open>_generate_hash\<close> computes with
  \<^verbatim>\<open>hashlib.md5\<close> is a parameter.
\<close>

record tasva_scraper =
  device_token :: string
  secure_key :: string
  device_id :: string

record http_response =
  status_code :: int
  json_body :: "json option"

definition tasva_payload ::
  "tasva_scraper \<Rightarrow> (dict \<Rightarrow> string) \<Rightarrow> string \<Rightarrow> int \<Rightarrow> int \<Rightarrow> dict" where
  "tasva_payload self generate_hash query offset limit =
     (let payload =
        [(''categoryId'', JStr ''-1''),
         (''categoryName'', JStr ''''),
         (''fp'', JStr ''''),
         (''sorting'', JStr ''popular:asc''),
         (''limit'', JInt limit),
         (''offset'', JInt offset),
         (''pageNo'', JInt (offset div limit + 1)),
         (''pageName'', JStr ''''),
         (''searchWord'', JStr query),
         (''requestMode'', JStr ''similarproducts''),
         (''storeId'', JInt 0),
         (''customerId'', JInt 0),
         (''cartId'', JInt 0),
         (''shopId'', JInt 33),
         (''shopName'', JStr ''Tasva''),
         (''regionID'', JStr ''UL''),
         (''deviceId'', JStr (device_id self)),
         (''isS2SCall'', JBool False),
         (''deviceType'', JStr ''desktop''),
         (''brand'', JStr ''Tasva''),
         (''geoLocation'', JInt (- 1)),
         (''fcmToken'', JInt (- 1)),
         (''deviceToken'', JStr (device_token self))]
      in assign
           [(''hash'',
               JStr (if query = ''kurta'' \<and> offset = 0 then ''30c23fb01d501a7bf6d4e68019a9992d''
                     else generate_hash payload)),
            (''validateHash'', JBool True)]
           payload)"

text \<open>
  After a successful answer \<^verbatim>\<open>search\<close> logs a summary of the decoded body, and the line
  \<^verbatim>\<open>len(products_data['hits'])\<close> raises a \<^verbatim>\<open>TypeError\<close> that no handler catches when
  \<^verbatim>\<open>results.products\<close> is a dict whose \<^verbatim>\<open>hits\<close> has no length.
\<close>

fun has_len :: "json \<Rightarrow> bool" where
  "has_len (JStr s) = True"
| "has_len (JArr xs) = True"
| "has_len (JObj kvs) = True"
| "has_len v = False"

definition logging_raises :: "json \<Rightarrow> bool" where
  "logging_raises data =
     (case data of
        JObj d \<Rightarrow>
          (case map_of d ''results'' of
             Some (JObj results) \<Rightarrow>
               (case map_of results ''products'' of
                  Some (JObj products_data) \<Rightarrow>
                    (case map_of products_data ''hits'' of
                       Some hits \<Rightarrow> \<not> has_len hits
                     | None \<Rightarrow> False)
                | _ \<Rightarrow> False)
           | _ \<Rightarrow> False)
      | _ \<Rightarrow> False)"

text \<open>
  \<open>tasva_search\<close> returns the payloads it posted, in order, and what \<^verbatim>\<open>search\<close> returns
  or raises. Building the payload divides by \<^verbatim>\<open>limit\<close> outside the \<^verbatim>\<open>try\<close>. A status of
  400 to 599 makes \<^verbatim>\<open>raise_for_status\<close> raise, which the handler turns into \<^verbatim>\<open>{}\<close>; the
  bare \<^verbatim>\<open>except\<close> around the retry swallows a failed retry and keeps the first response.
\<close>

definition tasva_search ::
  "(dict \<Rightarrow> http_response option) \<Rightarrow> tasva_scraper \<Rightarrow> (dict \<Rightarrow> string) \<Rightarrow> string \<Rightarrow> int \<Rightarrow> int
     \<Rightarrow> dict list \<times> (error + json)" where
  "tasva_search post self generate_hash query offset limit =
     (if limit = 0 then ([], Inl ZeroDivisionError)
      else
        let payload = tasva_payload self generate_hash query offset limit in
        case post payload of
          None \<Rightarrow> ([payload], Inr (JObj []))
        | Some first_response \<Rightarrow>
            let payload_no_hash =
                  AList.update ''validateHash'' (JBool False) (AList.delete ''hash'' payload);
                invalid_request =
                  (status_code first_response = 400
                   \<and> (case json_body first_response of
                        Some (JObj error_data) \<Rightarrow>
                          map_of error_data ''msg'' = Some (JArr [JStr ''INVALID_REQUEST''])
                      | _ \<Rightarrow> False));
                sent = (if invalid_request then [payload, payload_no_hash] else [payload]);
                response =
                  (if invalid_request then
                     (case post payload_no_hash of
                        None \<Rightarrow> first_response
                      | Some retry_response \<Rightarrow> retry_response)
                   else first_response)
            in if 400 \<le> status_code response \<and> status_code response < 600
               then (sent, Inr (JObj []))
               else (case json_body response of
                       Some data \<Rightarrow>
                         if logging_raises data then (sent, Inl TypeError) else (sent, Inr data)
                     | None \<Rightarrow> (sent, Inr (JObj []))))"

section \<open>The records of one page\<close>

text \<open>
  What one fetch contributes to \<^verbatim>\<open>all_products\<close>: the records \<open>extract_products\<close> returns
  for the response to that page number or offset (none when the fetch or the extraction
  raises).
\<close>

definition snitch_page :: "(int \<Rightarrow> int \<Rightarrow> json) \<Rightarrow> int \<Rightarrow> int \<Rightarrow> dict list" where
  "snitch_page search limit page =
     (case snitch_extract_products (search page limit) of
        Inr products \<Rightarrow> products
      | Inl e \<Rightarrow> [])"

definition tasva_page :: "(int \<Rightarrow> int \<Rightarrow> error + json) \<Rightarrow> int \<Rightarrow> int \<Rightarrow> dict list" where
  "tasva_page search limit offset =
     (case search offset limit of
        Inr response_data \<Rightarrow>
          (case tasva_extract_products response_data of
             Inr products \<Rightarrow> products
           | Inl e \<Rightarrow> [])
      | Inl e \<Rightarrow> [])"

section \<open>Simulated sources\<close>



section \<open>\<^verbatim>\<open>json.loads\<close>\<close>

text \<open>
  The standard library's JSON decoder, on the values of the model: whitespace between tokens,
  the literals \<^verbatim>\<open>null\<close>, \<^verbatim>\<open>true\<close> and \<^verbatim>\<open>false\<close>, integers (a number with a fraction or an
  exponent, \<^verbatim>\<open>NaN\<close> and \<^verbatim>\<open>Infinity\<close> are floats, outside the model, and give \<open>None\<close> here as
  a malformed text does), strings with their escapes (a code point of 256 or more is outside
  the model; a raw control character is rejected), arrays and objects. A dict built from the
  members of an object keeps the last value of a repeated key. The decoder is recursive;
  \<open>fuel\<close> bounds the number of values it may still read, and \<open>loads\<close> gives it the length of
  the text. The interpreter's limits on the depth of recursion and on the number of digits of
  an integer are not part of the model.
\<close>

definition json_ws :: "char \<Rightarrow> bool" where
  "json_ws c \<longleftrightarrow> of_char c \<in> {32, 9, 10, 13 :: nat}"

definition skip_ws :: "string \<Rightarrow> string" where
  "skip_ws s = dropWhile json_ws s"

definition is_digit :: "char \<Rightarrow> bool" where
  "is_digit c \<longleftrightarrow> 48 \<le> (of_char c :: nat) \<and> (of_char c :: nat) \<le> 57"

definition digits_val :: "string \<Rightarrow> nat" where
  "digits_val ds = foldl (\<lambda>acc c. acc * 10 + (of_char c - 48)) 0 ds"

definition starts_fraction :: "string \<Rightarrow> bool" where
  "starts_fraction s = (case s of [] \<Rightarrow> False | c # cs \<Rightarrow> c = CHR ''.'' \<or> c = CHR ''e'' \<or> c = CHR ''E'')"

text \<open>\<^verbatim>\<open>0\<close>, or a digit from 1 to 9 followed by digits.\<close>

definition parse_nat :: "string \<Rightarrow> (nat \<times> string) option" where
  "parse_nat s =
     (case s of
        [] \<Rightarrow> None
      | c # cs \<Rightarrow>
          if c = CHR ''0'' then (if starts_fraction cs then None else Some (0, cs))
          else if is_digit c then
            (if starts_fraction (dropWhile is_digit s) then None
             else Some (digits_val (takeWhile is_digit s), dropWhile is_digit s))
          else None)"

definition parse_int :: "string \<Rightarrow> (json \<times> string) option" where
  "parse_int s =
     (case s of
        [] \<Rightarrow> None
      | c # cs \<Rightarrow>
          if c = CHR ''-'' then map_option (\<lambda>(n, rest). (JInt (- int n), rest)) (parse_nat cs)
          else map_option (\<lambda>(n, rest). (JInt (int n), rest)) (parse_nat s))"

definition hex_val :: "char \<Rightarrow> nat option" where
  "hex_val c =
     (let n = of_char c :: nat in
      if 48 \<le> n \<and> n \<le> 57 then Some (n - 48)
      else if 97 \<le> n \<and> n \<le> 102 then Some (n - 87)
      else if 65 \<le> n \<and> n \<le> 70 then Some (n - 55)
      else None)"

definition hex4 :: "char \<Rightarrow> char \<Rightarrow> char \<Rightarrow> char \<Rightarrow> char option" where
  "hex4 a b c d =
     (case (hex_val a, hex_val b, hex_val c, hex_val d) of
        (Some x, Some y, Some z, Some w) \<Rightarrow>
          (let n = ((x * 16 + y) * 16 + z) * 16 + w in if n < 256 then Some (char_of n) else None)
      | _ \<Rightarrow> None)"

definition unescape :: "char \<Rightarrow> char option" where
  "unescape e =
     (if e = CHR 0x22 \<or> e = CHR 0x5C \<or> e = CHR ''/'' then Some e
      else if e = CHR ''b'' then Some (char_of (8 :: nat))
      else if e = CHR ''f'' then Some (char_of (12 :: nat))
      else if e = CHR ''n'' then Some (char_of (10 :: nat))
      else if e = CHR ''r'' then Some (char_of (13 :: nat))
      else if e = CHR ''t'' then Some (char_of (9 :: nat))
      else None)"

text \<open>The characters of a string, after its opening quote, up to the closing quote.\<close>

fun parse_chars :: "string \<Rightarrow> (string \<times> string) option" where
  "parse_chars [] = None"
| "parse_chars (c # cs) =
     (if c = CHR 0x22 then Some ([], cs)
      else if c = CHR 0x5C then
        (case cs of
           [] \<Rightarrow> None
         | e # r \<Rightarrow>
             if e = CHR ''u'' then
               (case r of
                  a # b # c2 # d # r' \<Rightarrow>
                    (case hex4 a b c2 d of
                       Some ch \<Rightarrow> map_option (\<lambda>(str, rest). (ch # str, rest)) (parse_chars r')
                     | None \<Rightarrow> None)
                | _ \<Rightarrow> None)
             else
               (case unescape e of
                  Some ch \<Rightarrow> map_option (\<lambda>(str, rest). (ch # str, rest)) (parse_chars r)
                | None \<Rightarrow> None))
      else if (of_char c :: nat) < 32 then None
      else map_option (\<lambda>(str, rest). (c # str, rest)) (parse_chars cs))"

definition dict_of_pairs :: "(string \<times> json) list \<Rightarrow> dict" where
  "dict_of_pairs pairs = fold (\<lambda>(k, v) d. AList.update k v d) pairs []"

fun parse_value :: "nat \<Rightarrow> string \<Rightarrow> (json \<times> string) option"
  and parse_elems :: "nat \<Rightarrow> string \<Rightarrow> (json list \<times> string) option"
  and parse_members :: "nat \<Rightarrow> string \<Rightarrow> ((string \<times> json) list \<times> string) option" where
  "parse_value 0 s = None"
| "parse_value (Suc fuel) s =
     (case s of
        [] \<Rightarrow> None
      | c # r \<Rightarrow>
          if prefix ''null'' s then Some (JNull, drop 4 s)
          else if prefix ''true'' s then Some (JBool True, drop 4 s)
          else if prefix ''false'' s then Some (JBool False, drop 5 s)
          else if c = CHR 0x22 then map_option (\<lambda>(str, rest). (JStr str, rest)) (parse_chars r)
          else if c = CHR ''['' then
            (case skip_ws r of
               [] \<Rightarrow> None
             | d # r' \<Rightarrow>
                 if d = CHR '']'' then Some (JArr [], r')
                 else map_option (\<lambda>(vs, rest). (JArr vs, rest)) (parse_elems fuel (skip_ws r)))
          else if c = CHR ''{'' then
            (case skip_ws r of
               [] \<Rightarrow> None
             | d # r' \<Rightarrow>
                 if d = CHR ''}'' then Some (JObj [], r')
                 else map_option (\<lambda>(kvs, rest). (JObj (dict_of_pairs kvs), rest))
                        (parse_members fuel (skip_ws r)))
          else parse_int s)"
| "parse_elems 0 s = None"
| "parse_elems (Suc fuel) s =
     (case parse_value fuel s of
        None \<Rightarrow> None
      | Some (v, r) \<Rightarrow>
          (case skip_ws r of
             [] \<Rightarrow> None
           | d # r' \<Rightarrow>
               if d = CHR '']'' then Some ([v], r')
               else if d = CHR '','' then
                 map_option (\<lambda>(vs, rest). (v # vs, rest)) (parse_elems fuel (skip_ws r'))
               else None))"
| "parse_members 0 s = None"
| "parse_members (Suc fuel) s =
     (case s of
        [] \<Rightarrow> None
      | q # r \<Rightarrow>
          if q \<noteq> CHR 0x22 then None
          else
            (case parse_chars r of
               None \<Rightarrow> None
             | Some (key, r1) \<Rightarrow>
                 (case skip_ws r1 of
                    [] \<Rightarrow> None
                  | colon # r2 \<Rightarrow>
                      if colon \<noteq> CHR '':'' then None
                      else
                        (case parse_value fuel (skip_ws r2) of
                           None \<Rightarrow> None
                         | Some (v, r3) \<Rightarrow>
                             (case skip_ws r3 of
                                [] \<Rightarrow> None
                              | d # r4 \<Rightarrow>
                                  if d = CHR ''}'' then Some ([(key, v)], r4)
                                  else if d = CHR '','' then
                                    map_option (\<lambda>(kvs, rest). ((key, v) # kvs, rest))
                                      (parse_members fuel (skip_ws r4))
                                  else None)))))"

definition loads :: "string \<Rightarrow> json option" where
  "loads s =
     (case parse_value (length s) (skip_ws s) of
        Some (v, rest) \<Rightarrow> if skip_ws rest = [] then Some v else None
      | None \<Rightarrow> None)"

text \<open>A dict has each key once, at every level.\<close>

fun distinct_keys :: "json \<Rightarrow> bool" where
  "distinct_keys (JArr xs) = (\<forall>x \<in> set xs. distinct_keys x)"
| "distinct_keys (JObj kvs) = (distinct (map fst kvs) \<and> (\<forall>kv \<in> set kvs. distinct_keys (snd kv)))"
| "distinct_keys v = True"

subsection \<open>Notions used in the proof of the round trip\<close>

text \<open>What may follow a value in a JSON text: nothing, or a comma or a closing bracket.\<close>

definition delimited :: "string \<Rightarrow> bool" where
  "delimited rest \<longleftrightarrow>
     (case rest of [] \<Rightarrow> True | c # cs \<Rightarrow> c = CHR '','' \<or> c = CHR '']'' \<or> c = CHR ''}'')"

text \<open>Fuel that suffices to read a value back.\<close>

fun fuel_of :: "json \<Rightarrow> nat" where
  "fuel_of (JArr xs) = Suc (sum_list (map (\<lambda>x. Suc (fuel_of x)) xs))"
| "fuel_of (JObj kvs) = Suc (sum_list (map (\<lambda>kv. Suc (fuel_of (snd kv))) kvs))"
| "fuel_of JNull = Suc 0"
| "fuel_of (JBool b) = Suc 0"
| "fuel_of (JInt i) = Suc 0"
| "fuel_of (JStr s) = Suc 0"

text \<open>One member of a serialized dict.\<close>

abbreviation dumps_member :: "string \<times> json \<Rightarrow> string" where
  "dumps_member \<equiv> (\<lambda>(k, v). json_str False k @ '': '' @ dumps False v)"

section \<open>Properties of the string helpers\<close>

lemma all_dropWhile: "(\<forall>x \<in> set (dropWhile P s). P x) \<longleftrightarrow> (\<forall>x \<in> set s. P x)"
  by (induction s) auto

lemma py_strip_Nil_iff: "py_strip s = [] \<longleftrightarrow> (\<forall>c \<in> set s. is_space c)"
  by (simp add: py_strip_def all_dropWhile)

lemma split_on_no_sep: "c \<notin> set s \<Longrightarrow> split_on c s = [s]"
  by (induction s) auto

lemma comma_not_space: "\<not> is_space CHR '',''"
  by (simp add: is_space_def)

section \<open>Image URLs\<close>

text \<open>
  The early return of \<open>parse_images\<close> for a blank string agrees with the comprehension: a
  string that strips to nothing holds no comma, so it is its own single piece.
\<close>

lemma parse_images_eq:
  "parse_images s = filter (\<lambda>x. x \<noteq> []) (map py_strip (split_on CHR '','' s))"
proof (cases "py_strip s = []")
  case True
  then have "CHR '','' \<notin> set s"
    using comma_not_space by (auto simp: py_strip_Nil_iff)
  then have "split_on CHR '','' s = [s]" by (rule split_on_no_sep)
  with True show ?thesis by (simp add: parse_images_def)
next
  case False
  then have "s \<noteq> []" by (auto simp: py_strip_def)
  with False show ?thesis by (simp add: parse_images_def filter_map comp_def)
qed

text \<open>
  C9. The identifier string \<^verbatim>\<open>"1078050-16668879, 1078050-16668881"\<close> gives exactly two URLs,
  in the order of the identifiers, each
  \<^verbatim>\<open>https://imagescdn.tasva.com/img/app/product/1/<id>.jpg?w=1000&auto=format\<close>. For every
  input string, the URL list is the list of the non-empty trimmed comma-separated pieces, in
  their order, each turned into its URL (so it has their length and their order).
\<close>

theorem image_url_derivation:
  "map generate_image_url (parse_images ''1078050-16668879, 1078050-16668881'') =
     [''https://imagescdn.tasva.com/img/app/product/1/1078050-16668879.jpg?w=1000&auto=format'',
      ''https://imagescdn.tasva.com/img/app/product/1/1078050-16668881.jpg?w=1000&auto=format'']
   \<and> map generate_image_url (parse_images s) =
       map generate_image_url (filter (\<lambda>x. x \<noteq> []) (map py_strip (split_on CHR '','' s)))"
proof
  show "map generate_image_url (parse_images ''1078050-16668879, 1078050-16668881'') =
     [''https://imagescdn.tasva.com/img/app/product/1/1078050-16668879.jpg?w=1000&auto=format'',
      ''https://imagescdn.tasva.com/img/app/product/1/1078050-16668881.jpg?w=1000&auto=format'']"
    by (simp add: parse_images_def py_strip_def is_space_def generate_image_url_def)
  show "map generate_image_url (parse_images s) =
       map generate_image_url (filter (\<lambda>x. x \<noteq> []) (map py_strip (split_on CHR '','' s)))"
    by (simp add: parse_images_eq)
qed

section \<open>Deduplication keeps first occurrences\<close>

lemma nths_first_Cons:
  "map ((!) (p # rest)) (filter P [0..<Suc n]) =
     (if P 0 then [p] else []) @ map ((!) rest) (filter (\<lambda>i. P (Suc i)) [0..<n])"
proof -
  have "[0..<Suc n] = 0 # map Suc [0..<n]"
    by (simp add: upt_conv_Cons map_Suc_upt del: upt_Suc)
  then show ?thesis
    by (simp add: filter_map comp_def del: upt_Suc)
qed

lemma truthy_hash_key: "truthy (hash_key v) = truthy v"
  by (cases v) auto

text \<open>
  The loops, started from any set of seen keys and any list of records already kept: the
  record at index \<open>i\<close> is appended iff its key is empty, or is neither in the set nor the
  key of an earlier record.
\<close>

lemma title_loop_eq:
  "remove_duplicates_by_title_loop seen unique ps =
     unique @ map ((!) ps)
       (filter (\<lambda>i. normalized_title (ps ! i) = [] \<or>
                    (normalized_title (ps ! i) \<notin> seen \<and>
                     (\<forall>j<i. normalized_title (ps ! j) \<noteq> normalized_title (ps ! i))))
               [0..<length ps])"
proof (induction ps arbitrary: seen unique)
  case Nil
  then show ?case by simp
next
  case (Cons p rest)
  show ?case
    unfolding length_Cons nths_first_Cons
    by (auto simp: Let_def Cons.IH All_less_Suc2 intro!: arg_cong[where f="map ((!) rest)"] filter_cong)
qed

lemma id_loop_eq:
  "remove_duplicates_by_id_loop seen unique ps =
     (if \<exists>p \<in> set ps. truthy (product_id p) \<and> \<not> hashable (product_id p) then Inl TypeError
      else Inr (unique @ map ((!) ps)
        (filter (\<lambda>i. \<not> truthy (product_id (ps ! i)) \<or>
                     (hash_key (product_id (ps ! i)) \<notin> seen \<and>
                      (\<forall>j<i. \<not> py_eq (product_id (ps ! j)) (product_id (ps ! i)))))
                [0..<length ps])))"
proof (induction ps arbitrary: seen unique)
  case Nil
  then show ?case by simp
next
  case (Cons p rest)
  have tk: "\<And>a b. hash_key a = hash_key b \<Longrightarrow> truthy a = truthy b"
    by (metis truthy_hash_key)
  show ?case
  proof (cases "truthy (product_id p) \<and> \<not> hashable (product_id p)")
    case True
    then show ?thesis by (simp add: Let_def)
  next
    case False
    show ?thesis
    proof (cases "\<exists>q \<in> set rest. truthy (product_id q) \<and> \<not> hashable (product_id q)")
      case True
      with False show ?thesis by (auto simp: Let_def Cons.IH)
    next
      case bad: False
      then have IH: "\<And>seen unique. remove_duplicates_by_id_loop seen unique rest =
         Inr (unique @ map ((!) rest)
           (filter (\<lambda>i. \<not> truthy (product_id (rest ! i)) \<or>
                        (hash_key (product_id (rest ! i)) \<notin> seen \<and>
                         (\<forall>j<i. \<not> py_eq (product_id (rest ! j)) (product_id (rest ! i)))))
                   [0..<length rest]))"
        by (simp add: Cons.IH)
      have nb: "\<not> (\<exists>q \<in> set (p # rest). truthy (product_id q) \<and> \<not> hashable (product_id q))"
        using False bad by simp
      show ?thesis
        unfolding if_not_P [OF nb] length_Cons nths_first_Cons
        using False
        by (auto simp: Let_def IH All_less_Suc2 py_eq_def dest: tk
                 intro!: arg_cong[where f="map ((!) rest)"] filter_cong)
    qed
  qed
qed

text \<open>
  C3, as the code has it. Both deduplicators scan the records in their original order.
  \<open>remove_duplicates_by_title\<close> returns exactly the records that are the first occurrence
  of their key, the lower-cased and stripped title, together with every record whose key is
  empty: the title is absent or falsy (empty, \<^verbatim>\<open>None\<close>, \<^verbatim>\<open>0\<close>, \<^verbatim>\<open>False\<close>) or strips to
  nothing. \<open>remove_duplicates_by_id\<close> raises \<^verbatim>\<open>TypeError\<close> when some record has a truthy
  list or dict as \<^verbatim>\<open>ProductID\<close>; otherwise it returns exactly the records that are the first
  occurrence of their \<^verbatim>\<open>ProductID\<close>, up to Python equality, together with every record
  whose \<^verbatim>\<open>ProductID\<close> is absent or falsy. Records with an empty key are all kept.
\<close>

theorem stable_dedup:
  "remove_duplicates_by_title ps =
     map ((!) ps)
       (filter (\<lambda>i. normalized_title (ps ! i) = [] \<or>
                    (\<forall>j<i. normalized_title (ps ! j) \<noteq> normalized_title (ps ! i)))
               [0..<length ps])
   \<and> remove_duplicates_by_id ps =
       (if \<exists>p \<in> set ps. truthy (product_id p) \<and> \<not> hashable (product_id p) then Inl TypeError
        else Inr (map ((!) ps)
          (filter (\<lambda>i. \<not> truthy (product_id (ps ! i)) \<or>
                       (\<forall>j<i. \<not> py_eq (product_id (ps ! j)) (product_id (ps ! i))))
                  [0..<length ps])))"
  by (simp add: remove_duplicates_by_title_def remove_duplicates_by_id_def
        title_loop_eq id_loop_eq)

text \<open>
  The claim as stated fails: two records with the \<^verbatim>\<open>ProductID\<close> 0 (or the title 0) share
  a key that is neither empty nor absent, and both are kept; a record whose \<^verbatim>\<open>ProductID\<close> is
  a non-empty list makes \<open>remove_duplicates_by_id\<close> raise.
\<close>

theorem stable_dedup_counterexample:
  "remove_duplicates_by_id
     [[(''ProductID'', JInt 0), (''Name'', JStr ''first'')],
      [(''ProductID'', JInt 0), (''Name'', JStr ''second'')]]
   = Inr [[(''ProductID'', JInt 0), (''Name'', JStr ''first'')],
          [(''ProductID'', JInt 0), (''Name'', JStr ''second'')]]
   \<and> remove_duplicates_by_id
     [[(''ProductID'', JArr [JInt 7]), (''Name'', JStr ''first'')]] = Inl TypeError
   \<and> remove_duplicates_by_title
     [[(''title'', JInt 0), (''id'', JInt 1)], [(''title'', JInt 0), (''id'', JInt 2)]]
   = [[(''title'', JInt 0), (''id'', JInt 1)], [(''title'', JInt 0), (''id'', JInt 2)]]"
  by code_simp

theorem stable_dedup_witness:
  "remove_duplicates_by_title
     [[(''title'', JStr ''Blue Shirt''), (''id'', JInt 1)],
      [(''id'', JInt 2)],
      [(''title'', JStr '' blue shirt ''), (''id'', JInt 3)],
      [(''title'', JStr ''''), (''id'', JInt 4)]]
   = [[(''title'', JStr ''Blue Shirt''), (''id'', JInt 1)],
      [(''id'', JInt 2)],
      [(''title'', JStr ''''), (''id'', JInt 4)]]
   \<and> remove_duplicates_by_id
     [[(''ProductID'', JStr ''A1''), (''Name'', JStr ''X'')],
      [(''Name'', JStr ''no id'')],
      [(''ProductID'', JStr ''A1''), (''Name'', JStr ''X-dup'')],
      [(''ProductID'', JStr ''''), (''Name'', JStr ''empty id'')]]
   = Inr [[(''ProductID'', JStr ''A1''), (''Name'', JStr ''X'')],
      [(''Name'', JStr ''no id'')],
      [(''ProductID'', JStr ''''), (''Name'', JStr ''empty id'')]]"
proof -
  let ?ts = "[[(''title'', JStr ''Blue Shirt''), (''id'', JInt 1)],
      [(''id'', JInt 2)],
      [(''title'', JStr '' blue shirt ''), (''id'', JInt 3)],
      [(''title'', JStr ''''), (''id'', JInt 4)]]"
  let ?ps = "[[(''ProductID'', JStr ''A1''), (''Name'', JStr ''X'')],
      [(''Name'', JStr ''no id'')],
      [(''ProductID'', JStr ''A1''), (''Name'', JStr ''X-dup'')],
      [(''ProductID'', JStr ''''), (''Name'', JStr ''empty id'')]]"
  have bounded: "(\<forall>j<i. Q j) = list_all Q [0..<i]" for Q and i :: nat
    by (auto simp: list_all_iff)
  have hyp: "\<not> (\<exists>p \<in> set ?ps. truthy (product_id p) \<and> \<not> hashable (product_id p))"
    by (simp add: product_id_def dict_get_def)
  have v1: "map ((!) ?ts)
       (filter (\<lambda>i. normalized_title (?ts ! i) = [] \<or>
                    list_all (\<lambda>j. normalized_title (?ts ! j) \<noteq> normalized_title (?ts ! i)) [0..<i])
               [0..<length ?ts]) =
     [[(''title'', JStr ''Blue Shirt''), (''id'', JInt 1)],
      [(''id'', JInt 2)],
      [(''title'', JStr ''''), (''id'', JInt 4)]]"
    by code_simp
  have v2: "map ((!) ?ps)
            (filter (\<lambda>i. \<not> truthy (product_id (?ps ! i)) \<or>
                         list_all (\<lambda>j. \<not> py_eq (product_id (?ps ! j)) (product_id (?ps ! i))) [0..<i])
                    [0..<length ?ps]) =
     [[(''ProductID'', JStr ''A1''), (''Name'', JStr ''X'')],
      [(''Name'', JStr ''no id'')],
      [(''ProductID'', JStr ''''), (''Name'', JStr ''empty id'')]]"
    by code_simp
  from stable_dedup [of ?ts, THEN conjunct1]
  have a: "remove_duplicates_by_title ?ts = [[(''title'', JStr ''Blue Shirt''), (''id'', JInt 1)],
      [(''id'', JInt 2)],
      [(''title'', JStr ''''), (''id'', JInt 4)]]"
    unfolding bounded v1 .
  from stable_dedup [of ?ps, THEN conjunct2]
  have b: "remove_duplicates_by_id ?ps = Inr [[(''ProductID'', JStr ''A1''), (''Name'', JStr ''X'')],
      [(''Name'', JStr ''no id'')],
      [(''ProductID'', JStr ''''), (''Name'', JStr ''empty id'')]]"
    unfolding if_not_P [OF hyp] bounded v2 .
  from a b show ?thesis ..
qed

section \<open>The flattener is total\<close>

lemma update_fresh: "k \<notin> fst ` set al \<Longrightarrow> AList.update k v al = al @ [(k, v)]"
  by (induction al) auto

lemma set_update_subset: "set (AList.update k v al) \<subseteq> insert (k, v) (set al)"
  by (induction al) auto

lemma is_primitive_flatten_value: "is_primitive (flatten_value v)"
  by (cases v) auto

lemma flatten_fold_keys:
  "fst ` set (fold (\<lambda>(key, value) product. AList.update key (flatten_value value) product) item acc)
     = fst ` set acc \<union> fst ` set item"
  by (induction item arbitrary: acc) (auto simp: dom_update split: prod.splits)

lemma flatten_fold_values:
  "\<forall>v \<in> snd ` set acc. is_primitive v \<Longrightarrow>
   \<forall>v \<in> snd ` set (fold (\<lambda>(key, value) product. AList.update key (flatten_value value) product) item acc).
      is_primitive v"
proof (induction item arbitrary: acc)
  case Nil
  then show ?case by simp
next
  case (Cons kv item)
  obtain k v where kv: "kv = (k, v)" by (cases kv)
  have "\<forall>w \<in> snd ` set (AList.update k (flatten_value v) acc). is_primitive w"
    using Cons.prems set_update_subset [of k "flatten_value v" acc]
    by (auto simp: is_primitive_flatten_value)
  from Cons.IH [OF this] show ?case by (simp add: kv)
qed

lemma flatten_fold_distinct:
  "distinct (map fst item) \<Longrightarrow> fst ` set acc \<inter> fst ` set item = {} \<Longrightarrow>
   fold (\<lambda>(key, value) product. AList.update key (flatten_value value) product) item acc
     = acc @ map (\<lambda>(key, value). (key, flatten_value value)) item"
proof (induction item arbitrary: acc)
  case Nil
  then show ?case by simp
next
  case (Cons kv item)
  obtain k v where kv: "kv = (k, v)" by (cases kv)
  have fresh: "k \<notin> fst ` set acc" using Cons.prems(2) by (auto simp: kv)
  have d: "distinct (map fst item)" using Cons.prems(1) by simp
  have "fst ` set (acc @ [(k, flatten_value v)]) \<inter> fst ` set item = {}"
    using Cons.prems by (auto simp: kv)
  from Cons.IH [OF d this] show ?case
    by (simp add: kv update_fresh [OF fresh])
qed

text \<open>
  C5. For every raw record that is a mapping, \<open>_extract_product_info\<close> returns a record
  (no error branch is taken); the record has an entry for exactly the keys of the input, every
  value in it is a scalar, and, the keys of a dict being distinct, it is the input with the
  value of each key flattened, in the input's order.
\<close>

theorem flatten_total:
  "\<exists>product. snitch_extract_product_info (JObj item) = Inr product
      \<and> fst ` set product = fst ` set item
      \<and> (\<forall>v \<in> snd ` set product. is_primitive v)
      \<and> (distinct (map fst item) \<longrightarrow>
           product = map (\<lambda>(key, value). (key, flatten_value value)) item)"
  using flatten_fold_keys [of item "[]"] flatten_fold_values [of "[]" item]
    flatten_fold_distinct [of item "[]"]
  by simp

theorem flatten_total_witness:
  "snitch_extract_product_info
     (JObj [(''id'', JInt 7), (''title'', JStr ''Shirt''), (''tags'', JArr [JStr ''a'', JNull, JInt 2]),
            (''variant'', JObj [(''size'', JStr ''M'')]), (''stock'', JNull)])
   = Inr [(''id'', JInt 7), (''title'', JStr ''Shirt''), (''tags'', JStr ''a, , 2''),
          (''variant'', JStr (dumps False (JObj [(''size'', JStr ''M'')]))), (''stock'', JNull)]"
proof -
  let ?item = "[(''id'', JInt 7), (''title'', JStr ''Shirt''), (''tags'', JArr [JStr ''a'', JNull, JInt 2]),
            (''variant'', JObj [(''size'', JStr ''M'')]), (''stock'', JNull)]"
  have d: "distinct (map fst ?item)" by simp
  have s: "py_str_int 2 = ''2''" by code_simp
  from flatten_total [of ?item] d show ?thesis
    by (auto simp: s)
qed

section \<open>Known keys before the recursive search\<close>

lemma key_is_list_iff: "key_is_list d k \<longleftrightarrow> (\<exists>xs. map_of d k = Some (JArr xs))"
  by (auto simp: key_is_list_def split: option.splits json.splits)

lemma extract_products_located:
  assumes "snd (locate_products_data data) = JArr xs" and "extract_items xs = Inr ps" and "ps \<noteq> []"
  shows "snitch_extract_products (JObj data) = Inr ps"
  using assms by (simp add: snitch_extract_products_def)

text \<open>
  C4, as the code has it. When one of the top-level keys \<^verbatim>\<open>data\<close>, \<^verbatim>\<open>products\<close>,
  \<^verbatim>\<open>results\<close>, \<^verbatim>\<open>items\<close> holds an array, the locating step takes the array of the first
  such key in that order, on the branch that prints \<^verbatim>\<open>Found 'k' key with list\<close> (the
  recursive search is not called), and \<open>extract_products\<close> returns the non-empty flattened
  records of that array whenever there is at least one. The nested paths \<^verbatim>\<open>data.products\<close>
  and \<^verbatim>\<open>data.results\<close> are looked at only when none of the four holds an array and
  \<^verbatim>\<open>data\<close> is a mapping; then the value under \<^verbatim>\<open>data.products\<close>, else the one under
  \<^verbatim>\<open>data.results\<close>, is taken, whether it is an array or not.
\<close>

theorem known_path_precedence:
  "(find (key_is_list data) [''data'', ''products'', ''results'', ''items''] = Some k \<longrightarrow>
      (\<exists>xs. map_of data k = Some (JArr xs)
         \<and> locate_products_data data = (Found_key_with_list k, JArr xs)
         \<and> (\<forall>ps. extract_items xs = Inr ps \<and> ps \<noteq> [] \<longrightarrow>
               snitch_extract_products (JObj data) = Inr ps)))
   \<and> (find (key_is_list data) [''data'', ''products'', ''results'', ''items''] = None \<longrightarrow>
        map_of data ''data'' = Some (JObj nested) \<longrightarrow>
          (has_key nested ''products'' \<longrightarrow>
             locate_products_data data = (Found_nested ''data.products'', dict_get nested ''products'' JNull))
        \<and> (\<not> has_key nested ''products'' \<longrightarrow> has_key nested ''results'' \<longrightarrow>
             locate_products_data data = (Found_nested ''data.results'', dict_get nested ''results'' JNull)))"
proof (intro conjI impI)
  assume f: "find (key_is_list data) [''data'', ''products'', ''results'', ''items''] = Some k"
  then have kl: "key_is_list data k"
    by (auto split: if_splits)
  then obtain xs where xs: "map_of data k = Some (JArr xs)"
    by (auto simp: key_is_list_iff)
  have loc: "locate_products_data data = (Found_key_with_list k, JArr xs)"
    using f xs by (auto simp: locate_products_data_def dict_get_def split: if_splits)
  then have "\<forall>ps. extract_items xs = Inr ps \<and> ps \<noteq> [] \<longrightarrow>
               snitch_extract_products (JObj data) = Inr ps"
    by (auto intro: extract_products_located)
  with xs loc show "\<exists>xs. map_of data k = Some (JArr xs)
         \<and> locate_products_data data = (Found_key_with_list k, JArr xs)
         \<and> (\<forall>ps. extract_items xs = Inr ps \<and> ps \<noteq> [] \<longrightarrow>
               snitch_extract_products (JObj data) = Inr ps)"
    by blast
next
  assume "find (key_is_list data) [''data'', ''products'', ''results'', ''items''] = None"
    and "map_of data ''data'' = Some (JObj nested)" and "has_key nested ''products''"
  then show "locate_products_data data = (Found_nested ''data.products'', dict_get nested ''products'' JNull)"
    by (auto simp: locate_products_data_def split: if_splits)
next
  assume "find (key_is_list data) [''data'', ''products'', ''results'', ''items''] = None"
    and "map_of data ''data'' = Some (JObj nested)" and "\<not> has_key nested ''products''"
    and "has_key nested ''results''"
  then show "locate_products_data data = (Found_nested ''data.results'', dict_get nested ''results'' JNull)"
    by (auto simp: locate_products_data_def split: if_splits)
qed

text \<open>
  The claim as stated fails. With arrays under both \<^verbatim>\<open>data\<close> and \<^verbatim>\<open>items\<close>, the key
  \<^verbatim>\<open>items\<close> is present and holds an array, and the array of \<^verbatim>\<open>data\<close> is returned. With a
  mapping under \<^verbatim>\<open>data.products\<close> and an array under \<^verbatim>\<open>data.results\<close>, the mapping is
  taken and the array is not returned.
\<close>

theorem known_path_counterexample:
  "key_is_list [(''data'', JArr [JObj [(''id'', JInt 1)]]), (''items'', JArr [JObj [(''id'', JInt 2)]])] ''items''
   \<and> locate_products_data
        [(''data'', JArr [JObj [(''id'', JInt 1)]]), (''items'', JArr [JObj [(''id'', JInt 2)]])]
      = (Found_key_with_list ''data'', JArr [JObj [(''id'', JInt 1)]])
   \<and> snitch_extract_products
        (JObj [(''data'', JArr [JObj [(''id'', JInt 1)]]), (''items'', JArr [JObj [(''id'', JInt 2)]])])
      = Inr [[(''id'', JInt 1)]]
   \<and> map_of [(''products'', JObj []), (''results'', JArr [JObj [(''sku'', JInt 1)]])] ''results''
      = Some (JArr [JObj [(''sku'', JInt 1)]])
   \<and> locate_products_data
        [(''data'', JObj [(''products'', JObj []), (''results'', JArr [JObj [(''sku'', JInt 1)]])])]
      = (Found_nested ''data.products'', JObj [])
   \<and> snitch_extract_products
        (JObj [(''data'', JObj [(''products'', JObj []), (''results'', JArr [JObj [(''sku'', JInt 1)]])])])
      = Inr []"
  by code_simp

theorem known_path_precedence_witness:
  "locate_products_data
     [(''status'', JStr ''ok''), (''items'', JArr [JObj [(''id'', JInt 2)], JObj []]),
      (''products'', JArr [JObj [(''id'', JInt 1)]])]
     = (Found_key_with_list ''products'', JArr [JObj [(''id'', JInt 1)]])
   \<and> snitch_extract_products
       (JObj [(''status'', JStr ''ok''), (''items'', JArr [JObj [(''id'', JInt 2)], JObj []]),
              (''products'', JArr [JObj [(''id'', JInt 1)]])])
     = Inr [[(''id'', JInt 1)]]
   \<and> locate_products_data [(''data'', JObj [(''results'', JArr [JObj [(''id'', JInt 3)]])])]
     = (Found_nested ''data.results'', JArr [JObj [(''id'', JInt 3)]])"
proof -
  let ?d = "[(''status'', JStr ''ok''), (''items'', JArr [JObj [(''id'', JInt 2)], JObj []]),
      (''products'', JArr [JObj [(''id'', JInt 1)]])]"
  let ?n = "[(''results'', JArr [JObj [(''id'', JInt 3)]])]"
  let ?e = "[(''data'', JObj ?n)]"
  have f: "find (key_is_list ?d) [''data'', ''products'', ''results'', ''items''] = Some ''products''"
    by (simp add: key_is_list_def)
  from known_path_precedence [of ?d "''products''" "[]", THEN conjunct1, THEN mp, OF f]
  obtain xs where a: "map_of ?d ''products'' = Some (JArr xs)"
    and b: "locate_products_data ?d = (Found_key_with_list ''products'', JArr xs)"
    and c: "\<forall>ps. extract_items xs = Inr ps \<and> ps \<noteq> [] \<longrightarrow> snitch_extract_products (JObj ?d) = Inr ps"
    by blast
  from a have xs: "xs = [JObj [(''id'', JInt 1)]]" by simp
  have "extract_items xs = Inr [[(''id'', JInt 1)]]" by (simp add: xs)
  with c have c': "snitch_extract_products (JObj ?d) = Inr [[(''id'', JInt 1)]]" by simp
  have g: "find (key_is_list ?e) [''data'', ''products'', ''results'', ''items''] = None"
    by (simp add: key_is_list_def)
  have h: "map_of ?e ''data'' = Some (JObj ?n)" by simp
  have i: "\<not> has_key ?n ''products''" "has_key ?n ''results''" by (simp_all add: has_key_def)
  from known_path_precedence [of ?e "''x''" ?n, THEN conjunct2, THEN mp, OF g, THEN mp, OF h,
      THEN conjunct2, THEN mp, OF i(1), THEN mp, OF i(2)]
  have d: "locate_products_data ?e = (Found_nested ''data.results'', JArr [JObj [(''id'', JInt 3)]])"
    by (simp add: dict_get_def)
  from b xs c' d show ?thesis by simp
qed

section \<open>The Tasva flattener always sets the identity key\<close>

lemma map_of_assign_other:
  "k \<notin> fst ` set kvs \<Longrightarrow> map_of (assign kvs product) k = map_of product k"
  unfolding assign_def
  by (induction kvs arbitrary: product) (auto simp: update_conv')

lemma basic_fields_ProductID:
  "map_of (basic_fields item []) ''ProductID'' = Some (dict_get item ''ProductID'' (JStr ''''))"
  by (simp add: basic_fields_def assign_def update_conv')

lemma features_fields_ProductID:
  "map_of (features_fields item product) ''ProductID'' = map_of product ''ProductID''"
  by (simp add: features_fields_def map_of_assign_other split: json.splits)

lemma discount_fields_ProductID:
  "map_of (discount_fields item product) ''ProductID'' = map_of product ''ProductID''"
  by (simp add: discount_fields_def map_of_assign_other split: json.splits)

lemma images_fields_ProductID:
  "images_fields media product = Inr product' \<Longrightarrow>
   map_of product' ''ProductID'' = map_of product ''ProductID''"
  by (auto simp: images_fields_def bind_result_def Let_def map_of_assign_other
           split: json.splits sum.splits)

lemma swatch_fields_ProductID:
  "swatch_fields media product = Inr product' \<Longrightarrow>
   map_of product' ''ProductID'' = map_of product ''ProductID''"
  by (auto simp: swatch_fields_def Let_def map_of_assign_other
           split: json.splits if_splits)

lemma media_fields_ProductID:
  "media_fields item product = Inr product' \<Longrightarrow>
   map_of product' ''ProductID'' = map_of product ''ProductID''"
  by (auto simp: media_fields_def bind_result_def map_of_assign_other
           images_fields_ProductID swatch_fields_ProductID
           split: json.splits sum.splits)

lemma sizes_fields_ProductID:
  "sizes_fields item product = Inr product' \<Longrightarrow>
   map_of product' ''ProductID'' = map_of product ''ProductID''"
  by (auto simp: sizes_fields_def bind_result_def map_of_assign_other
           split: json.splits sum.splits)

lemma tail_fields_ProductID:
  "map_of (tail_fields item product) ''ProductID'' = map_of product ''ProductID''"
  by (simp add: tail_fields_def Let_def map_of_assign_other)

text \<open>
  C10. Every record the Tasva flattener produces comes from a mapping and has the key
  \<^verbatim>\<open>ProductID\<close>, holding the raw item's \<^verbatim>\<open>ProductID\<close>, or the empty string when the raw
  item has none: the identity key that \<open>remove_duplicates_by_id\<close> reads is there.
\<close>

theorem product_id_present:
  "tasva_extract_product_info v = Inr product \<Longrightarrow>
   \<exists>item. v = JObj item
     \<and> map_of product ''ProductID'' = Some (dict_get item ''ProductID'' (JStr ''''))
     \<and> product_id product = dict_get item ''ProductID'' (JStr '''')"
proof (cases v)
  case (JObj item)
  assume r: "tasva_extract_product_info v = Inr product"
  then obtain p1 p2 where
    m: "media_fields item (discount_fields item (features_fields item (basic_fields item []))) = Inr p1"
    and s: "sizes_fields item p1 = Inr p2" and t: "product = tail_fields item p2"
    by (auto simp: JObj bind_result_def split: sum.splits)
  have "map_of product ''ProductID'' = Some (dict_get item ''ProductID'' (JStr ''''))"
    using media_fields_ProductID [OF m] sizes_fields_ProductID [OF s]
    by (simp add: t tail_fields_ProductID discount_fields_ProductID features_fields_ProductID
          basic_fields_ProductID)
  then show ?thesis
    by (simp add: JObj product_id_def dict_get_def)
qed simp_all

theorem product_id_present_witness:
  "(\<exists>product. tasva_extract_product_info (JObj [(''Name'', JStr ''Kurta'')]) = Inr product
       \<and> map_of product ''ProductID'' = Some (JStr '''') \<and> product_id product = JStr '''')
   \<and> (\<exists>product. tasva_extract_product_info
          (JObj [(''ProductID'', JInt 12), (''LinkRewrite'', JStr ''kurta-x'')]) = Inr product
       \<and> map_of product ''ProductID'' = Some (JInt 12) \<and> product_id product = JInt 12)"
proof -
  have "\<not> isl (tasva_extract_product_info (JObj [(''Name'', JStr ''Kurta'')]))"
    by code_simp
  then obtain p1 where p1: "tasva_extract_product_info (JObj [(''Name'', JStr ''Kurta'')]) = Inr p1"
    by (cases "tasva_extract_product_info (JObj [(''Name'', JStr ''Kurta'')])") auto
  have "\<not> isl (tasva_extract_product_info
          (JObj [(''ProductID'', JInt 12), (''LinkRewrite'', JStr ''kurta-x'')]))"
    by code_simp
  then obtain p2 where p2: "tasva_extract_product_info
          (JObj [(''ProductID'', JInt 12), (''LinkRewrite'', JStr ''kurta-x'')]) = Inr p2"
    by (cases "tasva_extract_product_info
          (JObj [(''ProductID'', JInt 12), (''LinkRewrite'', JStr ''kurta-x'')])") auto
  from product_id_present [OF p1] product_id_present [OF p2] p1 p2 show ?thesis
    by (simp add: dict_get_def)
qed

section \<open>One retry without signature validation\<close>

text \<open>
  C8. When the first request is answered with status 400 and the payload
  \<^verbatim>\<open>{"msg": ["INVALID_REQUEST"]}\<close>, \<open>search\<close> posts exactly two payloads: the signed
  one (with \<^verbatim>\<open>hash\<close>, \<^verbatim>\<open>validateHash\<close> true) and then one retry without \<^verbatim>\<open>hash\<close> and with
  \<^verbatim>\<open>validateHash\<close> false. If the retry fails too (the request raises, or it is answered
  with an error status), \<open>search\<close> returns the empty response \<^verbatim>\<open>{}\<close>, which is also what
  it returns after a transport error on the first request, where nothing is retried.
\<close>

theorem bounded_auth_retry:
  assumes limit: "limit \<noteq> 0"
    and first: "post (tasva_payload self generate_hash query offset limit) = Some first_response"
    and status: "status_code first_response = 400"
    and body: "json_body first_response = Some (JObj error_data)"
    and msg: "map_of error_data ''msg'' = Some (JArr [JStr ''INVALID_REQUEST''])"
  shows "let payload = tasva_payload self generate_hash query offset limit;
             payload_no_hash = AList.update ''validateHash'' (JBool False) (AList.delete ''hash'' payload);
             result = tasva_search post self generate_hash query offset limit
         in fst result = [payload, payload_no_hash]
            \<and> has_key payload ''hash''
            \<and> map_of payload ''validateHash'' = Some (JBool True)
            \<and> \<not> has_key payload_no_hash ''hash''
            \<and> map_of payload_no_hash ''validateHash'' = Some (JBool False)
            \<and> (post payload_no_hash = None
                  \<or> (\<exists>r. post payload_no_hash = Some r \<and> 400 \<le> status_code r \<and> status_code r < 600)
                \<longrightarrow> snd result = Inr (JObj []))
            \<and> (\<forall>post'. post' payload = None \<longrightarrow>
                  tasva_search post' self generate_hash query offset limit = ([payload], Inr (JObj [])))"
proof -
  have p1: "has_key (tasva_payload self generate_hash query offset limit) ''hash''"
    by (simp add: tasva_payload_def has_key_def assign_def update_conv' Let_def)
  have p2: "map_of (tasva_payload self generate_hash query offset limit) ''validateHash'' = Some (JBool True)"
    by (simp add: tasva_payload_def assign_def update_conv' Let_def)
  show ?thesis
    using limit first status body msg p1 p2
    by (auto simp: Let_def tasva_search_def has_key_def update_conv' delete_conv'
             split: option.splits)
qed

theorem bounded_auth_retry_witness:
  "(let self = \<lparr>device_token = ''t'', secure_key = ''k'', device_id = ''d''\<rparr>;
        post = (\<lambda>payload. if has_key payload ''hash''
                  then Some \<lparr>status_code = 400,
                         json_body = Some (JObj [(''msg'', JArr [JStr ''INVALID_REQUEST''])])\<rparr>
                  else Some \<lparr>status_code = 500, json_body = None\<rparr>);
        payload = tasva_payload self (\<lambda>p. ''0f'') ''sherwani'' 0 100
    in tasva_search post self (\<lambda>p. ''0f'') ''sherwani'' 0 100
         = ([payload, AList.update ''validateHash'' (JBool False) (AList.delete ''hash'' payload)],
            Inr (JObj [])))"
proof -
  define self where "self = \<lparr>device_token = ''t'', secure_key = ''k'', device_id = ''d''\<rparr>"
  define post where "post = (\<lambda>payload :: dict. if has_key payload ''hash''
                  then Some \<lparr>status_code = 400,
                         json_body = Some (JObj [(''msg'', JArr [JStr ''INVALID_REQUEST''])])\<rparr>
                  else Some \<lparr>status_code = 500, json_body = None\<rparr>)"
  define gh where "gh = (\<lambda>p :: dict. ''0f'')"
  define payload where "payload = tasva_payload self gh ''sherwani'' 0 100"
  define payload_no_hash where
    "payload_no_hash = AList.update ''validateHash'' (JBool False) (AList.delete ''hash'' payload)"
  have hk: "has_key payload ''hash''"
    by (simp add: payload_def tasva_payload_def has_key_def assign_def update_conv' Let_def)
  have nk: "\<not> has_key payload_no_hash ''hash''"
    by (simp add: payload_no_hash_def has_key_def update_conv' delete_conv')
  have first: "post (tasva_payload self gh ''sherwani'' 0 100)
      = Some \<lparr>status_code = 400, json_body = Some (JObj [(''msg'', JArr [JStr ''INVALID_REQUEST''])])\<rparr>"
    using hk by (simp add: post_def payload_def)
  have retry: "post payload_no_hash = Some \<lparr>status_code = 500, json_body = None\<rparr>"
    using nk by (simp add: post_def)
  from bounded_auth_retry [of 100 post self gh "''sherwani''" 0, OF _ first]
  have "fst (tasva_search post self gh ''sherwani'' 0 100) = [payload, payload_no_hash]
      \<and> snd (tasva_search post self gh ''sherwani'' 0 100) = Inr (JObj [])"
    using retry by (simp add: Let_def payload_def [symmetric] payload_no_hash_def [symmetric])
  then have "tasva_search post self gh ''sherwani'' 0 100 = ([payload, payload_no_hash], Inr (JObj []))"
    by (cases "tasva_search post self gh ''sherwani'' 0 100") simp
  then show ?thesis
    by (simp add: Let_def self_def post_def gh_def payload_def payload_no_hash_def)
qed

section \<open>The total count in the continuation decision\<close>








section \<open>The pagination loops\<close>

text \<open>One iteration of each loop, for a page that yields at least one record.\<close>

lemma snitch_loop_step:
  assumes "snitch_extract_products (search page limit) = Inr products" and "products \<noteq> []"
    and "snitch_pagination (search page limit) (length products)
           (length (all_products @ products)) limit page total_count = Inr (has_more, total_count')"
  shows "snitch_scrape_loop search limit page all_products total_count fetches
     = (if has_more \<and> page + 1 \<le> 1000
        then snitch_scrape_loop search limit (page + 1) (all_products @ products) total_count'
               (fetches + 1)
        else (fetches + 1, Inr (all_products @ products)))"
  by (subst snitch_scrape_loop.simps) (use assms in \<open>simp add: Let_def del: length_append\<close>)

lemma tasva_loop_step:
  assumes "search offset limit = Inr response_data"
    and "tasva_extract_products response_data = Inr products" and "products \<noteq> []"
    and "tasva_pagination response_data (length products)
           (length (all_products @ products)) limit total_count = Inr (has_more, total_count')"
  shows "tasva_scrape_loop search limit offset all_products total_count fetches
     = (if has_more \<and> offset + limit \<le> 100000
        then tasva_scrape_loop search limit (offset + limit) (all_products @ products) total_count'
               (fetches + 1)
        else Some (fetches + 1, Inr (all_products @ products)))"
  by (subst tasva_scrape_loop.simps) (use assms in \<open>simp del: length_append\<close>)

text \<open>
  A source that signals more pages in every state the loop reaches: \<open>I\<close> is any invariant
  of the run that guarantees a non-empty page and \<^verbatim>\<open>has_more\<close>. Then only the safety ceiling
  ends the loop, and the loop returns the records of every page it fetched, in order.
\<close>

lemma snitch_loop_always_more:
  assumes step: "\<And>page all_products total_count.
      I page all_products total_count \<Longrightarrow> 1 \<le> page \<Longrightarrow> page \<le> 1000 \<Longrightarrow>
      \<exists>products total_count'.
        snitch_extract_products (search page limit) = Inr products \<and> products \<noteq> []
        \<and> snitch_pagination (search page limit) (length products)
              (length (all_products @ products)) limit page total_count = Inr (True, total_count')
        \<and> I (page + 1) (all_products @ products) total_count'"
  shows "I page all_products total_count \<Longrightarrow> 1 \<le> page \<Longrightarrow> page \<le> 1000 \<Longrightarrow>
     snitch_scrape_loop search limit page all_products total_count fetches
       = (fetches + nat (1001 - page),
          Inr (all_products @ concat (map (snitch_page search limit) [page..1000])))"
proof (induction "nat (1000 - page)" arbitrary: page all_products total_count fetches)
  case 0
  then have p: "page = 1000" by simp
  from step [OF "0.prems"] obtain products total_count' where
    e: "snitch_extract_products (search page limit) = Inr products" and ne: "products \<noteq> []"
    and pg: "snitch_pagination (search page limit) (length products)
              (length (all_products @ products)) limit page total_count = Inr (True, total_count')"
    by blast
  have "snitch_scrape_loop search limit page all_products total_count fetches
      = (fetches + 1, Inr (all_products @ products))"
    using snitch_loop_step [where search = search and page = page and limit = limit, OF e ne pg] p
    by simp
  moreover have "concat (map (snitch_page search limit) [page..1000]) = products"
    using e by (simp add: p snitch_page_def)
  ultimately show ?case by (simp add: p)
next
  case (Suc k)
  then have p: "page < 1000" by simp
  from step [OF Suc.prems] obtain products total_count' where
    e: "snitch_extract_products (search page limit) = Inr products" and ne: "products \<noteq> []"
    and pg: "snitch_pagination (search page limit) (length products)
              (length (all_products @ products)) limit page total_count = Inr (True, total_count')"
    and inv: "I (page + 1) (all_products @ products) total_count'"
    by blast
  have unfold: "snitch_scrape_loop search limit page all_products total_count fetches
      = snitch_scrape_loop search limit (page + 1) (all_products @ products) total_count' (fetches + 1)"
    using snitch_loop_step [where search = search and page = page and limit = limit, OF e ne pg] p
    by simp
  have k: "k = nat (1000 - (page + 1))" using Suc.hyps(2) by simp
  have r: "snitch_scrape_loop search limit (page + 1) (all_products @ products) total_count' (fetches + 1)
          = (fetches + 1 + nat (1001 - (page + 1)),
             Inr ((all_products @ products)
                  @ concat (map (snitch_page search limit) [page + 1..1000])))"
    using Suc.hyps(1) [OF k inv, of "fetches + 1"] Suc.prems p by simp
  have "fetches + 1 + nat (1001 - (page + 1)) = fetches + nat (1001 - page)"
    using p Suc.prems by simp
  moreover have "concat (map (snitch_page search limit) [page..1000])
      = products @ concat (map (snitch_page search limit) [page + 1..1000])"
    using p e by (simp add: upto_rec1 [of page 1000] snitch_page_def)
  ultimately show ?case using unfold r by simp
qed

lemma tasva_loop_always_more:
  assumes limit: "0 < limit"
    and step: "\<And>offset all_products total_count.
      I offset all_products total_count \<Longrightarrow> 0 \<le> offset \<Longrightarrow> offset \<le> 100000 \<Longrightarrow>
      \<exists>response_data products total_count'.
        search offset limit = Inr response_data
        \<and> tasva_extract_products response_data = Inr products \<and> products \<noteq> []
        \<and> tasva_pagination response_data (length products)
              (length (all_products @ products)) limit total_count = Inr (True, total_count')
        \<and> I (offset + limit) (all_products @ products) total_count'"
  shows "I offset all_products total_count \<Longrightarrow> 0 \<le> offset \<Longrightarrow> offset \<le> 100000 \<Longrightarrow>
     tasva_scrape_loop search limit offset all_products total_count fetches
       = Some (fetches + nat ((100000 - offset) div limit) + 1,
           Inr (all_products
                @ concat (map (\<lambda>k. tasva_page search limit (offset + int k * limit))
                            [0..<nat ((100000 - offset) div limit) + 1])))"
proof (induction "nat (100000 - offset)" arbitrary: offset all_products total_count fetches
         rule: less_induct)
  case less
  from step [OF less.prems] obtain response_data products total_count' where
    s: "search offset limit = Inr response_data"
    and e: "tasva_extract_products response_data = Inr products" and ne: "products \<noteq> []"
    and pg: "tasva_pagination response_data (length products)
              (length (all_products @ products)) limit total_count = Inr (True, total_count')"
    and inv: "I (offset + limit) (all_products @ products) total_count'"
    by blast
  have page0: "tasva_page search limit offset = products"
    using s e by (simp add: tasva_page_def)
  show ?case
  proof (cases "offset + limit > 100000")
    case True
    have "tasva_scrape_loop search limit offset all_products total_count fetches
        = Some (fetches + 1, Inr (all_products @ products))"
      using tasva_loop_step [where search = search and offset = offset and limit = limit,
          OF s e ne pg] True by simp
    moreover have "(100000 - offset) div limit = 0"
      using True less.prems limit by (simp add: div_pos_pos_trivial)
    ultimately show ?thesis by (simp add: page0)
  next
    case False
    let ?m = "nat ((100000 - (offset + limit)) div limit)"
    have unfold: "tasva_scrape_loop search limit offset all_products total_count fetches
        = tasva_scrape_loop search limit (offset + limit) (all_products @ products) total_count'
            (fetches + 1)"
      using tasva_loop_step [where search = search and offset = offset and limit = limit,
          OF s e ne pg] False by simp
    have m: "nat (100000 - (offset + limit)) < nat (100000 - offset)"
      using False limit less.prems by simp
    have r: "tasva_scrape_loop search limit (offset + limit) (all_products @ products) total_count'
            (fetches + 1)
          = Some (fetches + 1 + ?m + 1,
              Inr ((all_products @ products)
                   @ concat (map (\<lambda>k. tasva_page search limit (offset + limit + int k * limit))
                               [0..<?m + 1])))"
      using less.hyps [OF m inv, of "fetches + 1"] False limit less.prems by simp
    have "(x + limit) div limit = x div limit + 1" for x :: int
      using limit by (simp add: div_add_self2)
    from this [of "100000 - (offset + limit)"]
    have "(100000 - offset) div limit = (100000 - (offset + limit)) div limit + 1"
      by simp
    moreover have "0 \<le> (100000 - (offset + limit)) div limit"
      using False limit by (simp add: pos_imp_zdiv_nonneg_iff)
    ultimately have n: "nat ((100000 - offset) div limit) = Suc ?m"
      by (simp add: nat_add_distrib)
    have idx: "[0..<Suc (Suc ?m)] = 0 # map Suc [0..<Suc ?m]"
      by (simp add: upt_conv_Cons map_Suc_upt del: upt_Suc)
    have "concat (map (\<lambda>k. tasva_page search limit (offset + int k * limit)) [0..<Suc ?m + 1])
        = products
          @ concat (map (\<lambda>k. tasva_page search limit (offset + limit + int k * limit)) [0..<?m + 1])"
      unfolding Suc_eq_plus1 [symmetric] idx
      by (simp add: page0 comp_def algebra_simps del: upt_Suc)
    with unfold r n show ?thesis by simp
  qed
qed

text \<open>When the Tasva flattener returns, and what it returns on wrapped hits.\<close>

lemma tasva_extract_has_id:
  assumes "tasva_extract_product_info v = Inr product"
  shows "map_of product ''ProductID'' \<noteq> None"
proof (cases v)
  case (JObj item)
  from assms obtain p1 p2 where
    m: "media_fields item (discount_fields item (features_fields item (basic_fields item []))) = Inr p1"
    and s: "sizes_fields item p1 = Inr p2" and t: "product = tail_fields item p2"
    by (auto simp: JObj bind_result_def split: sum.splits)
  show ?thesis
    using media_fields_ProductID [OF m] sizes_fields_ProductID [OF s]
    by (simp add: t tail_fields_ProductID discount_fields_ProductID features_fields_ProductID
          basic_fields_ProductID)
qed (use assms in simp_all)

lemma tasva_extract_nonempty: "tasva_extract_product_info v = Inr product \<Longrightarrow> product \<noteq> []"
  using tasva_extract_has_id by fastforce

lemma tasva_extract_product_id:
  assumes "tasva_extract_product_info (JObj item) = Inr product"
  shows "product_id product = dict_get item ''ProductID'' (JStr '''')"
proof -
  from assms obtain p1 p2 where
    m: "media_fields item (discount_fields item (features_fields item (basic_fields item []))) = Inr p1"
    and s: "sizes_fields item p1 = Inr p2" and t: "product = tail_fields item p2"
    by (auto simp: bind_result_def split: sum.splits)
  have "map_of product ''ProductID'' = Some (dict_get item ''ProductID'' (JStr ''''))"
    using media_fields_ProductID [OF m] sizes_fields_ProductID [OF s]
    by (simp add: t tail_fields_ProductID discount_fields_ProductID features_fields_ProductID
          basic_fields_ProductID)
  then show ?thesis
    by (simp add: product_id_def dict_get_def)
qed

lemma tasva_extract_plain:
  assumes "\<not> has_key item ''Media''" and "\<not> has_key item ''Sizes''"
  shows "\<exists>product. tasva_extract_product_info (JObj item) = Inr product"
proof -
  have m: "dict_get item ''Media'' (JObj []) = JObj []" and s: "dict_get item ''Sizes'' (JArr []) = JArr []"
    using assms by (simp_all add: has_key_def dict_get_def)
  have e: "dict_get [] k d = d" for k d by (simp add: dict_get_def)
  have "\<exists>p. media_fields item q = Inr p" for q
    by (simp add: media_fields_def m images_fields_def swatch_fields_def bind_result_def e Let_def)
  moreover have "\<exists>p. sizes_fields item q = Inr p" for q
    by (simp add: sizes_fields_def s bind_result_def)
  ultimately show ?thesis
    by (metis bind_result_def sum.case(2) tasva_extract_product_info.simps(1))
qed


section \<open>The safety ceiling\<close>

text \<open>
  C7. For a source that signals more pages and returns at least one record in every state
  the loop reaches, each loop ends at its ceiling and returns everything it gathered: the
  records of every page it fetched, in order, a list that is not empty. Snitch fetches the
  pages 1 to 1000 and stops when the page number becomes 1001. Tasva, for a positive
  \<^verbatim>\<open>limit\<close>, fetches the offsets 0, \<^verbatim>\<open>limit\<close>, \<open>\<dots>\<close> up to 100000
  (\<open>100000 div limit + 1\<close> fetches) and stops when the next offset exceeds 100000.
\<close>

theorem safety_ceiling:
  "(I 1 [] JNull
     \<and> (\<forall>page all_products total_count.
          I page all_products total_count \<and> 1 \<le> page \<and> page \<le> 1000 \<longrightarrow>
          (\<exists>products total_count'.
             snitch_extract_products (snitch_search page snitch_limit) = Inr products \<and> products \<noteq> []
             \<and> snitch_pagination (snitch_search page snitch_limit) (length products)
                   (length (all_products @ products)) snitch_limit page total_count
                 = Inr (True, total_count')
             \<and> I (page + 1) (all_products @ products) total_count'))
     \<longrightarrow> snitch_scrape_query snitch_search snitch_limit
           = (1000, Inr (concat (map (snitch_page snitch_search snitch_limit) [1..1000])))
         \<and> concat (map (snitch_page snitch_search snitch_limit) [1..1000]) \<noteq> [])
   \<and> (0 < limit \<and> J 0 [] JNull
     \<and> (\<forall>offset all_products total_count.
          J offset all_products total_count \<and> 0 \<le> offset \<and> offset \<le> 100000 \<longrightarrow>
          (\<exists>response_data products total_count'.
             search offset limit = Inr response_data
             \<and> tasva_extract_products response_data = Inr products \<and> products \<noteq> []
             \<and> tasva_pagination response_data (length products)
                   (length (all_products @ products)) limit total_count = Inr (True, total_count')
             \<and> J (offset + limit) (all_products @ products) total_count'))
     \<longrightarrow> tasva_scrape_query search limit
           = Some (nat (100000 div limit) + 1,
               Inr (concat (map (\<lambda>k. tasva_page search limit (int k * limit))
                              [0..<nat (100000 div limit) + 1])))
         \<and> concat (map (\<lambda>k. tasva_page search limit (int k * limit))
                      [0..<nat (100000 div limit) + 1]) \<noteq> [])"
proof (intro conjI impI)
  assume a: "I 1 [] JNull
     \<and> (\<forall>page all_products total_count.
          I page all_products total_count \<and> 1 \<le> page \<and> page \<le> 1000 \<longrightarrow>
          (\<exists>products total_count'.
             snitch_extract_products (snitch_search page snitch_limit) = Inr products \<and> products \<noteq> []
             \<and> snitch_pagination (snitch_search page snitch_limit) (length products)
                   (length (all_products @ products)) snitch_limit page total_count
                 = Inr (True, total_count')
             \<and> I (page + 1) (all_products @ products) total_count'))"
  then have i: "I 1 [] JNull" by blast
  from a have step: "\<And>page all_products total_count.
      I page all_products total_count \<Longrightarrow> 1 \<le> page \<Longrightarrow> page \<le> 1000 \<Longrightarrow>
      \<exists>products total_count'.
        snitch_extract_products (snitch_search page snitch_limit) = Inr products \<and> products \<noteq> []
        \<and> snitch_pagination (snitch_search page snitch_limit) (length products)
              (length (all_products @ products)) snitch_limit page total_count = Inr (True, total_count')
        \<and> I (page + 1) (all_products @ products) total_count'"
    by blast
  from snitch_loop_always_more [where I = I and search = snitch_search and limit = snitch_limit
      and page = 1 and all_products = "[]" and total_count = JNull and fetches = 0, OF step i]
  show "snitch_scrape_query snitch_search snitch_limit
           = (1000, Inr (concat (map (snitch_page snitch_search snitch_limit) [1..1000])))"
    by (simp add: snitch_scrape_query_def)
  from step [OF i] obtain products where
    "snitch_extract_products (snitch_search 1 snitch_limit) = Inr products" "products \<noteq> []"
    by auto
  then have "snitch_page snitch_search snitch_limit 1 \<noteq> []"
    by (simp add: snitch_page_def)
  then show "concat (map (snitch_page snitch_search snitch_limit) [1..1000]) \<noteq> []"
    by (simp add: upto_rec1 [of 1 1000])
next
  assume b: "0 < limit \<and> J 0 [] JNull
     \<and> (\<forall>offset all_products total_count.
          J offset all_products total_count \<and> 0 \<le> offset \<and> offset \<le> 100000 \<longrightarrow>
          (\<exists>response_data products total_count'.
             search offset limit = Inr response_data
             \<and> tasva_extract_products response_data = Inr products \<and> products \<noteq> []
             \<and> tasva_pagination response_data (length products)
                   (length (all_products @ products)) limit total_count = Inr (True, total_count')
             \<and> J (offset + limit) (all_products @ products) total_count'))"
  then have l: "0 < limit" and j: "J 0 [] JNull" by blast+
  from b have step: "\<And>offset all_products total_count.
      J offset all_products total_count \<Longrightarrow> 0 \<le> offset \<Longrightarrow> offset \<le> 100000 \<Longrightarrow>
      \<exists>response_data products total_count'.
        search offset limit = Inr response_data
        \<and> tasva_extract_products response_data = Inr products \<and> products \<noteq> []
        \<and> tasva_pagination response_data (length products)
              (length (all_products @ products)) limit total_count = Inr (True, total_count')
        \<and> J (offset + limit) (all_products @ products) total_count'"
    by blast
  from tasva_loop_always_more [where I = J and search = search and limit = limit
      and offset = 0 and all_products = "[]" and total_count = JNull and fetches = 0, OF l step j]
  show "tasva_scrape_query search limit
           = Some (nat (100000 div limit) + 1,
               Inr (concat (map (\<lambda>k. tasva_page search limit (int k * limit))
                              [0..<nat (100000 div limit) + 1])))"
    by (simp add: tasva_scrape_query_def)
  from step [OF j] obtain response_data products where
    "search 0 limit = Inr response_data" "tasva_extract_products response_data = Inr products"
    "products \<noteq> []"
    by auto
  then have "tasva_page search limit 0 \<noteq> []"
    by (simp add: tasva_page_def)
  then show "concat (map (\<lambda>k. tasva_page search limit (int k * limit))
                      [0..<nat (100000 div limit) + 1]) \<noteq> []"
    by (simp add: upt_conv_Cons del: upt_Suc)
qed

theorem safety_ceiling_witness:
  "snitch_scrape_query
      (\<lambda>page limit. JObj [(''data'', JArr [JObj [(''id'', JInt page)]]), (''hasMore'', JBool True)])
      1000 = (1000, Inr (map (\<lambda>page. [(''id'', JInt page)]) [1..1000]))
   \<and> (\<exists>collected.
      tasva_scrape_query
        (\<lambda>offset limit. Inr (JObj [(''success'', JBool True),
           (''results'', JObj [(''products'', JObj [(''hits'',
              JArr [JObj [(''_source'', JObj [(''ProductID'', JInt offset)])]])])])]))
        1 = Some (100001, Inr collected)
      \<and> map product_id collected = map (\<lambda>k. JInt (int k)) [0..<100001])"
proof -
  define S where "S = (\<lambda>(page :: int) (limit :: int).
      JObj [(''data'', JArr [JObj [(''id'', JInt page)]]), (''hasMore'', JBool True)])"
  define T where "T = (\<lambda>(offset :: int) (limit :: int).
      (Inr (JObj [(''success'', JBool True),
           (''results'', JObj [(''products'', JObj [(''hits'',
              JArr [JObj [(''_source'', JObj [(''ProductID'', JInt offset)])]])])])]) :: error + json))"
  define I where "I = (\<lambda>(n :: int) (ps :: dict list) (tc :: json). tc = JNull)"
  have s1: "snitch_extract_products (S page 1000) = Inr [[(''id'', JInt page)]]" for page
    by (simp add: S_def snitch_extract_products_def locate_products_data_def key_is_list_def
          dict_get_def)
  have s2: "snitch_pagination (S page 1000) n m 1000 page JNull = Inr (True, JNull)" for page n m
    by (simp add: S_def snitch_pagination_def snitch_data_pagination_def
          snitch_top_pagination_def has_key_def dict_get_def)
  have hs: "I 1 [] JNull
     \<and> (\<forall>page all_products total_count.
          I page all_products total_count \<and> 1 \<le> page \<and> page \<le> 1000 \<longrightarrow>
          (\<exists>products total_count'.
             snitch_extract_products (S page 1000) = Inr products \<and> products \<noteq> []
             \<and> snitch_pagination (S page 1000) (length products)
                   (length (all_products @ products)) 1000 page total_count
                 = Inr (True, total_count')
             \<and> I (page + 1) (all_products @ products) total_count'))"
    by (auto simp: I_def s1 s2)
  have t1: "\<exists>p. tasva_extract_products (projr (T offset 1)) = Inr [p] \<and> product_id p = JInt offset"
    for offset
  proof -
    obtain p where p: "tasva_extract_product_info (JObj [(''ProductID'', JInt offset)]) = Inr p"
      using tasva_extract_plain [of "[(''ProductID'', JInt offset)]"]
      by (auto simp: has_key_def)
    have "product_id p = JInt offset"
      using tasva_extract_product_id [OF p] by (simp add: dict_get_def)
    with p tasva_extract_nonempty [OF p] show ?thesis
      by (simp add: T_def tasva_extract_products_def products_obj_of_def dict_get_def has_key_def)
  qed
  have t2: "tasva_pagination (projr (T offset 1)) (Suc 0) m 1 JNull = Inr (True, JNull)" for offset m
    by (simp add: T_def tasva_pagination_def products_obj_of_def dict_get_def has_key_def)
  have r: "T offset 1 = Inr (projr (T offset 1))" for offset by (simp add: T_def)
  have ht: "(0::int) < 1 \<and> I 0 [] JNull
     \<and> (\<forall>offset all_products total_count.
          I offset all_products total_count \<and> 0 \<le> offset \<and> offset \<le> 100000 \<longrightarrow>
          (\<exists>response_data products total_count'.
             T offset 1 = Inr response_data
             \<and> tasva_extract_products response_data = Inr products \<and> products \<noteq> []
             \<and> tasva_pagination response_data (length products)
                   (length (all_products @ products)) 1 total_count = Inr (True, total_count')
             \<and> I (offset + 1) (all_products @ products) total_count'))"
  proof (intro conjI allI impI)
    fix offset all_products total_count
    assume "I offset all_products total_count \<and> 0 \<le> offset \<and> offset \<le> 100000"
    then have tc: "total_count = JNull" by (simp add: I_def)
    obtain p where p: "tasva_extract_products (projr (T offset 1)) = Inr [p]"
      using t1 by blast
    show "\<exists>response_data products total_count'.
             T offset 1 = Inr response_data
             \<and> tasva_extract_products response_data = Inr products \<and> products \<noteq> []
             \<and> tasva_pagination response_data (length products)
                   (length (all_products @ products)) 1 total_count = Inr (True, total_count')
             \<and> I (offset + 1) (all_products @ products) total_count'"
      using r [of offset] p t2 [of offset "length (all_products @ [p])"]
      by (intro exI [of _ "projr (T offset 1)"] exI [of _ "[p]"] exI [of _ JNull])
         (simp add: tc I_def)
  qed (simp_all add: I_def)
  have sp: "snitch_page S 1000 = (\<lambda>page. [[(''id'', JInt page)]])"
    by (rule ext) (simp add: snitch_page_def s1)
  have tp: "map product_id (tasva_page T 1 offset) = [JInt offset]" for offset
  proof -
    obtain p where p: "tasva_extract_products (projr (T offset 1)) = Inr [p]" "product_id p = JInt offset"
      using t1 by blast
    obtain resp where resp: "T offset 1 = Inr resp" "projr (T offset 1) = resp"
      using r [of offset] by simp
    show ?thesis
      using p by (simp add: tasva_page_def resp)
  qed
  from safety_ceiling [where I = I and snitch_search = S and snitch_limit = 1000
      and J = I and search = T and limit = 1] hs ht
  have a: "snitch_scrape_query S 1000 = (1000, Inr (concat (map (snitch_page S 1000) [1..1000])))"
    and b: "tasva_scrape_query T 1
      = Some (100001, Inr (concat (map (\<lambda>k. tasva_page T 1 (int k * 1)) [0..<100001])))"
    by simp_all
  have a': "snitch_scrape_query S 1000 = (1000, Inr (map (\<lambda>page. [(''id'', JInt page)]) [1..1000]))"
    using a by (simp add: sp)
  have "map product_id (concat (map (\<lambda>k. tasva_page T 1 (int k * 1)) [0..<100001]))
      = map (\<lambda>k. JInt (int k)) [0..<100001]"
    by (simp add: map_concat comp_def tp)
  with a' b show ?thesis
    unfolding S_def T_def by blast
qed

section \<open>Pagination over a source with a fixed total\<close>
















section \<open>Serialization round trip\<close>

subsection \<open>Strings\<close>

lemma char_of_code: "of_char c = (n :: nat) \<Longrightarrow> char_of n = c"
  by auto

lemma hex_val_zero: "hex_val CHR ''0'' = Some 0"
  by (simp add: hex_val_def)

lemma hex_val_hex_char: "d < 16 \<Longrightarrow> hex_val (hex_char d) = Some d"
  by (auto simp: hex_val_def hex_char_def Let_def)

lemma hex4_two: "x < 16 \<Longrightarrow> y < 16 \<Longrightarrow>
   hex4 CHR ''0'' CHR ''0'' (hex_char x) (hex_char y) = Some (char_of (x * 16 + y))"
  by (simp add: hex4_def hex_val_hex_char hex_val_zero)

lemma parse_chars_escape:
  "parse_chars (json_escape_char False c @ tail)
     = map_option (\<lambda>(str, rest). (c # str, rest)) (parse_chars tail)"
proof -
  let ?n = "of_char c :: nat"
  consider "c = CHR 0x5C \<or> c = CHR 0x22" | "c \<noteq> CHR 0x5C" "c \<noteq> CHR 0x22" "?n \<in> {8, 12, 10, 13, 9}"
    | "c \<noteq> CHR 0x5C" "c \<noteq> CHR 0x22" "?n \<notin> {8, 12, 10, 13, 9}" "?n < 32"
    | "c \<noteq> CHR 0x5C" "c \<noteq> CHR 0x22" "32 \<le> ?n"
    by fastforce
  then show ?thesis
  proof cases
    case 1
    then show ?thesis
      by (auto simp: json_escape_char_def unescape_def)
  next
    case 2
    then show ?thesis
      by (auto simp: json_escape_char_def unescape_def Let_def char_of_code)
  next
    case 3
    have d: "?n div 16 < 16" "?n mod 16 < 16" using 3 by simp_all
    have "hex4 CHR ''0'' CHR ''0'' (hex_char (?n div 16)) (hex_char (?n mod 16)) = Some c"
      using hex4_two [OF d] by simp
    with 3 show ?thesis
      by (simp add: json_escape_char_def Let_def)
  next
    case 4
    then show ?thesis
      by (auto simp: json_escape_char_def Let_def)
  qed
qed

lemma parse_chars_json:
  "parse_chars (concat (map (json_escape_char False) s) @ CHR 0x22 # rest) = Some (s, rest)"
  by (induction s) (simp_all add: parse_chars_escape del: parse_chars.simps, simp)

subsection \<open>Integers\<close>

lemma is_digit_digit_char: "d < 10 \<Longrightarrow> is_digit (digit_char d)"
  by (simp add: is_digit_def digit_char_def)

lemma digit_char_val: "d < 10 \<Longrightarrow> (of_char (digit_char d) :: nat) - 48 = d"
  by (simp add: digit_char_def)

lemma char_of_48: "char_of (48 :: nat) = CHR ''0''"
  by (rule char_of_code) simp

lemma digit_char_zero: "d < 10 \<Longrightarrow> digit_char d = CHR ''0'' \<longleftrightarrow> d = 0"
  by (auto simp: digit_char_def char_of_48 dest!: arg_cong [where f = "of_char :: char \<Rightarrow> nat"])

lemma dec_nat_digits: "\<forall>c \<in> set (dec_nat n). is_digit c"
proof (induction n rule: dec_nat.induct)
  case (1 n)
  then show ?case
    by (subst dec_nat.simps) (auto simp: is_digit_digit_char)
qed

lemma dec_nat_not_Nil: "dec_nat n \<noteq> []"
  by (subst dec_nat.simps) simp

lemma digits_val_snoc: "digits_val (ds @ [c]) = digits_val ds * 10 + (of_char c - 48)"
  by (simp add: digits_val_def)

lemma digits_val_dec_nat: "digits_val (dec_nat n) = n"
proof (induction n rule: dec_nat.induct)
  case (1 n)
  show ?case
  proof (cases "n < 10")
    case True
    then show ?thesis
      by (subst dec_nat.simps) (simp add: digits_val_def digit_char_val)
  next
    case False
    with 1 show ?thesis
      by (subst dec_nat.simps) (simp add: digits_val_snoc digit_char_val)
  qed
qed

lemma hd_dec_nat_zero: "hd (dec_nat n) = CHR ''0'' \<longleftrightarrow> n = 0"
proof (induction n rule: dec_nat.induct)
  case (1 n)
  show ?case
  proof (cases "n < 10")
    case True
    then show ?thesis
      by (subst dec_nat.simps) (simp add: digit_char_zero)
  next
    case False
    then have "n div 10 \<noteq> 0" by simp
    with 1 False show ?thesis
      by (subst dec_nat.simps) (simp add: dec_nat_not_Nil)
  qed
qed

lemma delimited_no_digit: "delimited rest \<Longrightarrow> rest = [] \<or> \<not> is_digit (hd rest)"
  by (auto simp: delimited_def is_digit_def split: list.splits)

lemma delimited_no_fraction: "delimited rest \<Longrightarrow> \<not> starts_fraction rest"
  by (auto simp: delimited_def starts_fraction_def split: list.splits)

lemma takeWhile_digits:
  "delimited rest \<Longrightarrow> takeWhile is_digit (dec_nat n @ rest) = dec_nat n"
  using dec_nat_digits [of n] delimited_no_digit [of rest]
  by (cases rest) (auto simp: takeWhile_append)

lemma dropWhile_digits:
  "delimited rest \<Longrightarrow> dropWhile is_digit (dec_nat n @ rest) = rest"
  using dec_nat_digits [of n] delimited_no_digit [of rest]
  by (cases rest) (auto simp: dropWhile_append)

lemma parse_nat_dec_nat:
  assumes "delimited rest"
  shows "parse_nat (dec_nat n @ rest) = Some (n, rest)"
proof -
  obtain c cs where d: "dec_nat n = c # cs"
    using dec_nat_not_Nil [of n] by (cases "dec_nat n") auto
  have dig: "is_digit c" using dec_nat_digits [of n] d by simp
  have nf: "\<not> starts_fraction rest" using assms by (rule delimited_no_fraction)
  show ?thesis
  proof (cases "n = 0")
    case True
    then have "dec_nat n = ''0''" by (subst dec_nat.simps) (simp add: digit_char_def char_of_48)
    with nf True show ?thesis by (simp add: parse_nat_def)
  next
    case False
    then have nz: "c \<noteq> CHR ''0''" using hd_dec_nat_zero [of n] d by simp
    have tw: "takeWhile is_digit (c # cs @ rest) = c # cs"
      using takeWhile_digits [OF assms, of n] d by simp
    have dw: "dropWhile is_digit (c # cs @ rest) = rest"
      using dropWhile_digits [OF assms, of n] d by simp
    have v: "digits_val (c # cs) = n"
      using digits_val_dec_nat [of n] d by simp
    have "parse_nat (c # cs @ rest) = Some (n, rest)"
      by (simp add: parse_nat_def tw dw v nz dig nf del: takeWhile.simps dropWhile.simps)
    then show ?thesis by (simp add: d)
  qed
qed

lemma is_digit_not_minus: "is_digit c \<Longrightarrow> c \<noteq> CHR ''-''"
  by (auto simp: is_digit_def)

lemma parse_int_str_int:
  assumes "delimited rest"
  shows "parse_int (py_str_int i @ rest) = Some (JInt i, rest)"
proof (cases "i < 0")
  case True
  then show ?thesis
    by (simp add: py_str_int_def parse_int_def parse_nat_dec_nat [OF assms])
next
  case False
  obtain c cs where d: "dec_nat (nat i) = c # cs"
    using dec_nat_not_Nil [of "nat i"] by (cases "dec_nat (nat i)") auto
  have "c \<noteq> CHR ''-''"
    using dec_nat_digits [of "nat i"] d by (auto dest: is_digit_not_minus)
  with False parse_nat_dec_nat [OF assms, of "nat i"] show ?thesis
    by (simp add: py_str_int_def parse_int_def d)
qed

lemma str_int_start:
  "\<exists>c cs. py_str_int i = c # cs \<and> (c = CHR ''-'' \<or> is_digit c)"
proof -
  obtain c cs where d: "dec_nat (nat i) = c # cs"
    using dec_nat_not_Nil [of "nat i"] by (cases "dec_nat (nat i)") auto
  then have "is_digit c" using dec_nat_digits [of "nat i"] by simp
  with d show ?thesis by (simp add: py_str_int_def)
qed

subsection \<open>Values\<close>

lemma number_start:
  assumes "c = CHR ''-'' \<or> is_digit c"
  shows "c \<noteq> CHR ''n''" "c \<noteq> CHR ''t''" "c \<noteq> CHR ''f''"
    "c \<noteq> CHR 0x22" "c \<noteq> CHR ''[''" "c \<noteq> CHR ''{''" "\<not> json_ws c" "c \<noteq> CHR '']''" "c \<noteq> CHR ''}''"
  using assms by (auto simp: is_digit_def json_ws_def)

lemma dumps_start:
  "\<exists>c cs. dumps False v = c # cs \<and> \<not> json_ws c \<and> c \<noteq> CHR '']'' \<and> c \<noteq> CHR ''}''"
proof (cases v)
  case (JInt i)
  obtain c cs where "py_str_int i = c # cs" "c = CHR ''-'' \<or> is_digit c"
    using str_int_start by blast
  then show ?thesis
    using number_start(7-9) [of c] by (simp add: JInt)
qed (auto simp: json_ws_def json_str_def)

lemma skip_ws_dumps: "skip_ws (dumps False v @ rest) = dumps False v @ rest"
  using dumps_start [of v] by (auto simp: skip_ws_def)

lemma skip_ws_delim [simp]:
  "skip_ws (CHR '']'' # rest) = CHR '']'' # rest"
  "skip_ws (CHR ''}'' # rest) = CHR ''}'' # rest"
  "skip_ws (CHR '','' # rest) = CHR '','' # rest"
  "skip_ws (CHR '':'' # rest) = CHR '':'' # rest"
  "skip_ws (CHR 0x22 # rest) = CHR 0x22 # rest"
  "skip_ws (CHR '' '' # rest) = skip_ws rest"
  by (simp_all add: skip_ws_def json_ws_def)

lemma delimited_simps [simp]:
  "delimited []" "delimited (CHR '','' # rest)" "delimited (CHR '']'' # rest)"
  "delimited (CHR ''}'' # rest)"
  by (simp_all add: delimited_def)

lemma parse_json_str:
  "parse_chars (tl (json_str False s) @ rest) = Some (s, rest)"
  by (simp add: json_str_def parse_chars_json del: parse_chars.simps)

lemma parse_scalar:
  assumes "delimited rest"
  shows "parse_value (Suc n) (dumps False JNull @ rest) = Some (JNull, rest)"
    and "parse_value (Suc n) (dumps False (JBool b) @ rest) = Some (JBool b, rest)"
    and "parse_value (Suc n) (dumps False (JInt i) @ rest) = Some (JInt i, rest)"
    and "parse_value (Suc n) (dumps False (JStr s) @ rest) = Some (JStr s, rest)"
proof -
  show "parse_value (Suc n) (dumps False JNull @ rest) = Some (JNull, rest)" by simp
  show "parse_value (Suc n) (dumps False (JBool b) @ rest) = Some (JBool b, rest)" by simp
  obtain c cs where i: "py_str_int i = c # cs" "c = CHR ''-'' \<or> is_digit c"
    using str_int_start by blast
  have "parse_value (Suc n) ((c # cs) @ rest) = parse_int ((c # cs) @ rest)"
    using number_start [OF i(2)] by simp
  then show "parse_value (Suc n) (dumps False (JInt i) @ rest) = Some (JInt i, rest)"
    using parse_int_str_int [OF assms, of i] by (simp add: i(1))
  show "parse_value (Suc n) (dumps False (JStr s) @ rest) = Some (JStr s, rest)"
    using parse_chars_json [of s rest] by (simp add: json_str_def del: parse_chars.simps)
qed

lemma join_Cons: "join sep (x # xs) = x @ (if xs = [] then [] else sep @ join sep xs)"
  by (cases xs) simp_all

lemma parse_elems_join:
  assumes IH: "\<And>x n rest. x \<in> set xs \<Longrightarrow> fuel_of x \<le> n \<Longrightarrow> delimited rest
                 \<Longrightarrow> parse_value n (dumps False x @ rest) = Some (x, rest)"
  shows "xs \<noteq> [] \<Longrightarrow> sum_list (map (\<lambda>x. Suc (fuel_of x)) xs) \<le> n
           \<Longrightarrow> parse_elems n (join '', '' (map (dumps False) xs) @ CHR '']'' # rest) = Some (xs, rest)"
  using IH
proof (induction xs arbitrary: n)
  case Nil
  then show ?case by simp
next
  case (Cons x xs)
  from Cons.prems(2) obtain m where n: "n = Suc m" and m: "fuel_of x \<le> m"
    and ms: "sum_list (map (\<lambda>x. Suc (fuel_of x)) xs) \<le> m"
    by (cases n) auto
  have px: "\<And>rest. delimited rest \<Longrightarrow> parse_value m (dumps False x @ rest) = Some (x, rest)"
    using Cons.prems(3) [of x m] m by simp
  show ?case
  proof (cases "xs = []")
    case True
    then show ?thesis
      using px [of "CHR '']'' # rest"] by (simp add: n)
  next
    case False
    have rec: "parse_elems m (join '', '' (map (dumps False) xs) @ CHR '']'' # rest) = Some (xs, rest)"
      using Cons.IH [OF False ms] Cons.prems(3) by simp
    obtain y ys where xs: "xs = y # ys" using False by (cases xs) auto
    have sk: "skip_ws (join '', '' (map (dumps False) xs) @ CHR '']'' # rest)
              = join '', '' (map (dumps False) xs) @ CHR '']'' # rest"
      using skip_ws_dumps [of y "(if ys = [] then [] else '', '' @ join '', '' (map (dumps False) ys)) @ CHR '']'' # rest"]
      by (simp add: xs join_Cons del: join.simps)
    have j: "join '', '' (map (dumps False) (x # xs)) @ CHR '']'' # rest
             = dumps False x @ (CHR '','' # CHR '' '' # join '', '' (map (dumps False) xs) @ CHR '']'' # rest)"
      using False by (simp add: join_Cons del: join.simps)
    show ?thesis
      unfolding j n
      using px [of "CHR '','' # CHR '' '' # join '', '' (map (dumps False) xs) @ CHR '']'' # rest"] rec sk
      by (simp del: join.simps)
  qed
qed

lemma member_eq:
  "dumps_member (k, v) @ rest = CHR 0x22 # concat (map (json_escape_char False) k) @ CHR 0x22 # CHR '':'' # CHR '' '' # dumps False v @ rest"
  by (simp add: json_str_def)

lemma parse_members_join:
  assumes IH: "\<And>kv n rest. kv \<in> set kvs \<Longrightarrow> fuel_of (snd kv) \<le> n \<Longrightarrow> delimited rest
                 \<Longrightarrow> parse_value n (dumps False (snd kv) @ rest) = Some (snd kv, rest)"
  shows "kvs \<noteq> [] \<Longrightarrow> sum_list (map (\<lambda>kv. Suc (fuel_of (snd kv))) kvs) \<le> n
           \<Longrightarrow> parse_members n (join '', '' (map dumps_member kvs) @ CHR ''}'' # rest) = Some (kvs, rest)"
  using IH
proof (induction kvs arbitrary: n)
  case Nil
  then show ?case by simp
next
  case (Cons kv kvs)
  obtain k v where kv: "kv = (k, v)" by (cases kv)
  from Cons.prems(2) obtain m where n: "n = Suc m" and m: "fuel_of v \<le> m"
    and ms: "sum_list (map (\<lambda>kv. Suc (fuel_of (snd kv))) kvs) \<le> m"
    by (cases n) (auto simp: kv)
  have px: "\<And>rest. delimited rest \<Longrightarrow> parse_value m (dumps False v @ rest) = Some (v, rest)"
    using Cons.prems(3) [of kv m] m by (simp add: kv)
  show ?case
  proof (cases "kvs = []")
    case True
    have j: "join '', '' (map dumps_member (kv # kvs)) @ CHR ''}'' # rest
             = CHR 0x22 # concat (map (json_escape_char False) k) @ CHR 0x22 # CHR '':'' # CHR '' '' # dumps False v @ CHR ''}'' # rest"
      using True member_eq [of k v "CHR ''}'' # rest"] by (simp add: kv)
    show ?thesis
      unfolding j n
      using px [of "CHR ''}'' # rest"]
      by (simp add: parse_chars_json skip_ws_dumps kv True del: parse_chars.simps)
  next
    case False
    have rec: "parse_members m (join '', '' (map dumps_member kvs) @ CHR ''}'' # rest) = Some (kvs, rest)"
      using Cons.IH [OF False ms] Cons.prems(3) by simp
    obtain y ys where xs: "kvs = y # ys" using False by (cases kvs) auto
    obtain yk yv where y: "y = (yk, yv)" by (cases y)
    have sk: "skip_ws (join '', '' (map dumps_member kvs) @ CHR ''}'' # rest)
              = join '', '' (map dumps_member kvs) @ CHR ''}'' # rest"
      by (simp add: xs y join_Cons json_str_def del: join.simps)
    let ?tail = "CHR '','' # CHR '' '' # join '', '' (map dumps_member kvs) @ CHR ''}'' # rest"
    have j: "join '', '' (map dumps_member (kv # kvs)) @ CHR ''}'' # rest
             = CHR 0x22 # concat (map (json_escape_char False) k) @ CHR 0x22 # CHR '':'' # CHR '' '' # dumps False v @ ?tail"
      using False member_eq [of k v ?tail] by (simp add: kv join_Cons del: join.simps)
    show ?thesis
      unfolding j n
      using px [of ?tail] rec sk
      by (simp add: parse_chars_json skip_ws_dumps kv del: parse_chars.simps join.simps)
  qed
qed

lemma dict_of_pairs_fold:
  "distinct (map fst kvs) \<Longrightarrow> fst ` set acc \<inter> fst ` set kvs = {}
     \<Longrightarrow> fold (\<lambda>(k, v) d. AList.update k v d) kvs acc = acc @ kvs"
proof (induction kvs arbitrary: acc)
  case Nil
  then show ?case by simp
next
  case (Cons kv kvs)
  obtain k v where kv: "kv = (k, v)" by (cases kv)
  have u: "AList.update k v acc = acc @ [(k, v)]"
    using Cons.prems(2) by (intro update_fresh) (auto simp: kv)
  have "fold (\<lambda>(k, v) d. AList.update k v d) kvs (acc @ [(k, v)]) = (acc @ [(k, v)]) @ kvs"
    using Cons.prems by (intro Cons.IH) (auto simp: kv)
  then show ?case by (simp add: kv u)
qed

lemma dict_of_pairs_distinct: "distinct (map fst kvs) \<Longrightarrow> dict_of_pairs kvs = kvs"
  using dict_of_pairs_fold [of kvs "[]"] by (simp add: dict_of_pairs_def)

lemma parse_array_open:
  "\<not> json_ws c \<Longrightarrow> c \<noteq> CHR '']''
     \<Longrightarrow> parse_value (Suc m) (CHR ''['' # c # cs)
         = map_option (\<lambda>(vs, rest). (JArr vs, rest)) (parse_elems m (c # cs))"
  by (simp add: skip_ws_def)

lemma parse_object_open:
  "parse_value (Suc m) (CHR ''{'' # CHR 0x22 # cs)
     = map_option (\<lambda>(kvs, rest). (JObj (dict_of_pairs kvs), rest)) (parse_members m (CHR 0x22 # cs))"
  by simp

lemma parse_value_dumps:
  "distinct_keys v \<Longrightarrow> fuel_of v \<le> n \<Longrightarrow> delimited rest
     \<Longrightarrow> parse_value n (dumps False v @ rest) = Some (v, rest)"
proof (induction v arbitrary: n rest rule: fuel_of.induct)
  case (1 xs)
  from "1.prems"(2) obtain m where n: "n = Suc m"
    and ms: "sum_list (map (\<lambda>x. Suc (fuel_of x)) xs) \<le> m"
    by (cases n) auto
  show ?case
  proof (cases "xs = []")
    case True
    then show ?thesis by (simp add: n)
  next
    case False
    have el: "parse_elems m (join '', '' (map (dumps False) xs) @ CHR '']'' # rest) = Some (xs, rest)"
      using "1.IH" "1.prems"(1) by (intro parse_elems_join [OF _ False ms]) simp
    obtain y ys where xs: "xs = y # ys" using False by (cases xs) auto
    obtain c cs where c: "dumps False y = c # cs" "\<not> json_ws c" "c \<noteq> CHR '']''"
      using dumps_start [of y] by blast
    have st: "join '', '' (map (dumps False) xs) @ CHR '']'' # rest
              = c # cs @ (if ys = [] then [] else '', '' @ join '', '' (map (dumps False) ys)) @ CHR '']'' # rest"
      by (simp add: xs join_Cons c del: join.simps)
    have "parse_value (Suc m) (CHR ''['' # join '', '' (map (dumps False) xs) @ CHR '']'' # rest)
          = map_option (\<lambda>(vs, rest). (JArr vs, rest))
              (parse_elems m (join '', '' (map (dumps False) xs) @ CHR '']'' # rest))"
      unfolding st using c(2,3) by (rule parse_array_open)
    then have "parse_value (Suc m) (CHR ''['' # join '', '' (map (dumps False) xs) @ CHR '']'' # rest)
          = Some (JArr xs, rest)"
      unfolding el by simp
    then show ?thesis
      by (simp add: n del: parse_value.simps)
  qed
next
  case (2 kvs)
  from "2.prems"(2) obtain m where n: "n = Suc m"
    and ms: "sum_list (map (\<lambda>kv. Suc (fuel_of (snd kv))) kvs) \<le> m"
    by (cases n) auto
  show ?case
  proof (cases "kvs = []")
    case True
    then show ?thesis by (simp add: n)
  next
    case False
    have el: "parse_members m (join '', '' (map dumps_member kvs) @ CHR ''}'' # rest) = Some (kvs, rest)"
      using "2.IH" "2.prems"(1) by (intro parse_members_join [OF _ False ms]) simp
    obtain y ys where xs: "kvs = y # ys" using False by (cases kvs) auto
    obtain yk yv where y: "y = (yk, yv)" by (cases y)
    let ?cs = "concat (map (json_escape_char False) yk) @ CHR 0x22 # '': '' @ dumps False yv"
    have st: "join '', '' (map dumps_member kvs) @ CHR ''}'' # rest
              = CHR 0x22 # ?cs @ (if ys = [] then [] else '', '' @ join '', '' (map dumps_member ys)) @ CHR ''}'' # rest"
      by (simp add: xs y join_Cons json_str_def del: join.simps)
    have "parse_value (Suc m) (CHR ''{'' # join '', '' (map dumps_member kvs) @ CHR ''}'' # rest)
          = map_option (\<lambda>(kvs, rest). (JObj (dict_of_pairs kvs), rest))
              (parse_members m (join '', '' (map dumps_member kvs) @ CHR ''}'' # rest))"
      unfolding st by (rule parse_object_open)
    then have "parse_value (Suc m) (CHR ''{'' # join '', '' (map dumps_member kvs) @ CHR ''}'' # rest)
          = Some (JObj kvs, rest)"
      unfolding el using "2.prems"(1) by (simp add: dict_of_pairs_distinct)
    then show ?thesis
      by (simp add: n del: parse_value.simps)
  qed
next
  case 3
  then show ?case using parse_scalar(1) [of rest] by (cases n) simp_all
next
  case (4 b)
  then show ?case using parse_scalar(2) [of rest _ b] by (cases n) simp_all
next
  case (5 i)
  then show ?case using parse_scalar(3) [of rest _ i] by (cases n) simp_all
next
  case (6 s)
  then show ?case using parse_scalar(4) [of rest _ s] by (cases n) simp_all
qed

lemma length_join:
  "length (join sep xs) = sum_list (map length xs) + length sep * (length xs - 1)"
  by (induction sep xs rule: join.induct) simp_all

lemma sum_list_fuel_le:
  assumes "\<And>x. x \<in> set xs \<Longrightarrow> f x \<le> g x"
  shows "sum_list (map (\<lambda>x. Suc (f x)) xs) \<le> sum_list (map g xs) + length xs"
  using assms
proof (induction xs)
  case Nil
  then show ?case by simp
next
  case (Cons a xs)
  have "f a \<le> g a" using Cons.prems by simp
  moreover have "sum_list (map (\<lambda>x. Suc (f x)) xs) \<le> sum_list (map g xs) + length xs"
    using Cons by simp
  ultimately show ?case by simp
qed

lemma fuel_le_length: "fuel_of v \<le> length (dumps False v)"
proof (induction v rule: fuel_of.induct)
  case (1 xs)
  have "sum_list (map (\<lambda>x. Suc (fuel_of x)) xs)
        \<le> sum_list (map (\<lambda>x. length (dumps False x)) xs) + length xs"
    using "1.IH" by (rule sum_list_fuel_le)
  moreover have "length xs \<le> Suc (2 * (length xs - 1))" by (cases xs) simp_all
  ultimately show ?case
    by (simp add: length_join comp_def del: join.simps)
next
  case (2 kvs)
  have "sum_list (map (\<lambda>kv. Suc (fuel_of (snd kv))) kvs)
        \<le> sum_list (map (\<lambda>kv. length (dumps False (snd kv))) kvs) + length kvs"
    using "2.IH" by (rule sum_list_fuel_le)
  moreover have "sum_list (map (\<lambda>kv. length (dumps False (snd kv))) kvs)
        \<le> sum_list (map (\<lambda>kv. length (dumps_member kv)) kvs)"
    by (rule sum_list_mono) (simp add: case_prod_beta)
  moreover have "length kvs \<le> Suc (2 * (length kvs - 1))" by (cases kvs) simp_all
  ultimately show ?case
    by (simp add: length_join comp_def del: join.simps)
next
  case (5 i)
  then show ?case using str_int_start [of i] by auto
qed (simp_all add: json_str_def)

lemma loads_dumps: "distinct_keys v \<Longrightarrow> loads (dumps False v) = Some v"
  using parse_value_dumps [of v "length (dumps False v)" "[]"] fuel_le_length [of v]
    skip_ws_dumps [of v "[]"]
  by (simp add: loads_def skip_ws_def)

lemma flatten_value_nested:
  "(\<exists>kvs. v = JObj kvs) \<or> (\<exists>xs. v = JArr xs \<and> (\<exists>x \<in> set xs. \<not> is_primitive x))
     \<Longrightarrow> flatten_value v = JStr (dumps False v)"
  by (auto simp: list_all_iff)

lemma map_of_flattened:
  "distinct (map fst item) \<Longrightarrow> (key, v) \<in> set item
     \<Longrightarrow> map_of (map (\<lambda>(key, value). (key, flatten_value value)) item) key = Some (flatten_value v)"
  by (induction item) (auto simp: rev_image_eqI)

text \<open>
  C6. A raw record is a dict, so its keys are distinct, and so are the keys of every dict
  inside it. For every value of the record that is a dict, or a list with an element that is
  a dict or a list, \<open>_extract_product_info\<close> returns a record whose entry for the key is a
  string, the one-line JSON serialization of the value (\<^verbatim>\<open>json.dumps\<close> with its default
  separators and \<^verbatim>\<open>ensure_ascii=False\<close>), and \<^verbatim>\<open>json.loads\<close> of that string is the value
  itself.
\<close>

theorem serialization_round_trip:
  assumes "distinct (map fst item)"
    and "(key, v) \<in> set item"
    and "(\<exists>kvs. v = JObj kvs) \<or> (\<exists>xs. v = JArr xs \<and> (\<exists>x \<in> set xs. \<not> is_primitive x))"
    and "distinct_keys v"
  shows "\<exists>product stored. snitch_extract_product_info (JObj item) = Inr product
           \<and> map_of product key = Some (JStr stored)
           \<and> stored = dumps False v
           \<and> loads stored = Some v"
  using flatten_fold_distinct [of item "[]"] map_of_flattened [OF assms(1,2)]
    flatten_value_nested [OF assms(3)] loads_dumps [OF assms(4)] assms(1)
  by simp

theorem serialization_round_trip_witness:
  "map_of (projr (snitch_extract_product_info
      (JObj [(''id'', JInt 7),
             (''variant'', JObj [(''size'', JStr ''M''), (''stock'', JArr [JInt 3, JInt (- 20), JNull])]),
             (''title'', JStr ''Shirt'')]))) ''variant''
     = Some (JStr (''{'' @ CHR 0x22 # ''size'' @ CHR 0x22 # '': '' @ CHR 0x22 # ''M'' @ CHR 0x22 # '', ''
                     @ CHR 0x22 # ''stock'' @ CHR 0x22 # '': [3, -20, null]}''))
   \<and> loads (''{'' @ CHR 0x22 # ''size'' @ CHR 0x22 # '': '' @ CHR 0x22 # ''M'' @ CHR 0x22 # '', ''
                     @ CHR 0x22 # ''stock'' @ CHR 0x22 # '': [3, -20, null]}'')
     = Some (JObj [(''size'', JStr ''M''), (''stock'', JArr [JInt 3, JInt (- 20), JNull])])"
proof -
  let ?v = "JObj [(''size'', JStr ''M''), (''stock'', JArr [JInt 3, JInt (- 20), JNull])]"
  let ?item = "[(''id'', JInt 7), (''variant'', ?v), (''title'', JStr ''Shirt'')]"
  have h1: "distinct (map fst ?item)" by simp
  have h2: "(''variant'', ?v) \<in> set ?item" by simp
  have h3: "(\<exists>kvs. ?v = JObj kvs) \<or> (\<exists>xs. ?v = JArr xs \<and> (\<exists>x \<in> set xs. \<not> is_primitive x))"
    by simp
  have h4: "distinct_keys ?v" by simp
  have t: "dumps False ?v = ''{'' @ CHR 0x22 # ''size'' @ CHR 0x22 # '': '' @ CHR 0x22 # ''M'' @ CHR 0x22 # '', ''
                     @ CHR 0x22 # ''stock'' @ CHR 0x22 # '': [3, -20, null]}''"
    by code_simp
  from serialization_round_trip [OF h1 h2 h3 h4] obtain product stored
    where "snitch_extract_product_info (JObj ?item) = Inr product"
      and "map_of product ''variant'' = Some (JStr stored)"
      and "stored = dumps False ?v" and "loads stored = Some ?v"
    by blast
  then show ?thesis
    unfolding t by simp
qed

end
